theory Spec2Isabelle
  imports Complex_Main
begin

section \<open>JavaScript values used by shared-game-utils.js\<close>

text \<open>
  A JavaScript string is a sequence of UTF-16 code units; \<open>jstring\<close> lists them as
  natural numbers. The ASCII literals of the source are written \<open>js ''...''\<close>, the
  Chinese literals are given by their code units.

  A value that may be \<open>null\<close> or \<open>undefined\<close> (the result of \<open>getAttribute\<close>, an
  omitted argument) is a \<open>jstring option\<close>. Such a value is truthy when it is a
  non-empty string; \<open>a || b\<close> is \<open>lor a b\<close>.

  Readings of \<open>performance.now()\<close> are real numbers (milliseconds); the arithmetic on
  them is exact, so the rounding of IEEE doubles is not part of the model.
  \<open>Math.round\<close> rounds to the nearest integer, a tie towards plus infinity.
  Console output is not part of the model.
\<close>

type_synonym jstring = "nat list"

definition js :: "string \<Rightarrow> jstring" where
  "js s = map of_char s"

definition truthy :: "jstring option \<Rightarrow> bool" where
  "truthy v = (case v of None \<Rightarrow> False | Some s \<Rightarrow> s \<noteq> [])"

definition lor :: "jstring option \<Rightarrow> jstring option \<Rightarrow> jstring option" where
  "lor a b = (if truthy a then a else b)"

definition Math_round :: "real \<Rightarrow> int" where
  "Math_round x = \<lfloor>x + 1 / 2\<rfloor>"

section \<open>GameErrorHandler\<close>

text \<open>
  The value handed to \<open>handleError\<close>: an instance of \<open>Error\<close> with its \<open>message\<close> and
  \<open>stack\<close> properties, or any other value, given by what \<open>String(error)\<close> returns.
\<close>

datatype thrown = ErrorInstance jstring "jstring option" | OtherValue jstring

record errorInfo =
  timestamp :: jstring
  game :: jstring
  source :: jstring
  message :: jstring
  stack :: "jstring option"

record GameErrorHandler =
  eh_gameName :: jstring
  errors :: "errorInfo list"
  maxErrors :: nat
  eh_initialized :: bool

text \<open>
  One capture: the arguments of a call \<open>handleError(error, source)\<close> (\<open>source\<close> is
  \<open>None\<close> when the argument is omitted) and what \<open>new Date().toISOString()\<close>
  returns during the call.
\<close>

record fault =
  f_error :: thrown
  f_source :: "jstring option"
  f_clock :: jstring

definition unknownGame :: jstring where
  "unknownGame = [0x672A, 0x77E5, 0x904A, 0x6232]"

definition new_GameErrorHandler :: "jstring option \<Rightarrow> GameErrorHandler" where
  "new_GameErrorHandler gameName =
     \<lparr> eh_gameName = (case gameName of None \<Rightarrow> unknownGame | Some g \<Rightarrow> g),
       errors = [],
       maxErrors = 50,
       eh_initialized = False \<rparr>"

text \<open>The object literal \<open>errorInfo\<close> built at the start of \<open>handleError\<close>.\<close>

definition mkErrorInfo :: "jstring \<Rightarrow> fault \<Rightarrow> errorInfo" where
  "mkErrorInfo gameName f =
     \<lparr> timestamp = f_clock f,
       game = gameName,
       source = (case f_source f of None \<Rightarrow> js ''unknown'' | Some s \<Rightarrow> s),
       message = (case f_error f of ErrorInstance m st \<Rightarrow> m | OtherValue s \<Rightarrow> s),
       stack = (case f_error f of ErrorInstance m st \<Rightarrow> st | OtherValue s \<Rightarrow> None) \<rparr>"

text \<open>
  \<open>handleError\<close> returns the record and leaves the handler with the record pushed and,
  when the list is then longer than \<open>maxErrors\<close>, its first element shifted out.
\<close>

definition handleError :: "GameErrorHandler \<Rightarrow> fault \<Rightarrow> errorInfo \<times> GameErrorHandler" where
  "handleError h f =
     (let info = mkErrorInfo (eh_gameName h) f;
          pushed = errors h @ [info];
          kept = (if length pushed > maxErrors h then tl pushed else pushed)
      in (info, h\<lparr>errors := kept\<rparr>))"

text \<open>
  \<open>getErrorStats\<close>: \<open>total\<close> and \<open>recent\<close> (the last ten records, \<open>slice(-10)\<close>). The
  \<open>bySource\<close> tally is left out of the model.
\<close>

record errorStats =
  total :: nat
  recent :: "errorInfo list"

definition getErrorStats :: "GameErrorHandler \<Rightarrow> errorStats" where
  "getErrorStats h =
     \<lparr> total = length (errors h),
       recent = drop (length (errors h) - 10) (errors h) \<rparr>"

definition clearErrors :: "GameErrorHandler \<Rightarrow> GameErrorHandler" where
  "clearErrors h = h\<lparr>errors := []\<rparr>"

text \<open>A sequence of captures, in arrival order.\<close>

fun handleErrors :: "GameErrorHandler \<Rightarrow> fault list \<Rightarrow> GameErrorHandler" where
  "handleErrors h [] = h"
| "handleErrors h (f # fs) = handleErrors (snd (handleError h f)) fs"

section \<open>GamePerformanceMonitor\<close>

record memorySnapshot =
  usedJSHeapSize :: int
  totalJSHeapSize :: int
  jsHeapSizeLimit :: int
  mem_timestamp :: int

record metrics =
  fps :: "int list"
  memory :: "memorySnapshot list"
  loadTime :: "real option"

record GamePerformanceMonitor =
  pm_gameName :: jstring
  metrics :: metrics
  frameCount :: nat
  lastTime :: real
  pm_initialized :: bool

text \<open>
  What the monitor registers with the page: the callbacks waiting for the next animation
  frame (\<open>requestAnimationFrame\<close>) and the callbacks repeated on an interval
  (\<open>setInterval\<close>, with the period in milliseconds); \<open>memoryAPI\<close> tells whether
  \<open>performance.memory\<close> is there.
\<close>

datatype frameCallback = MeasureFPS

datatype intervalCallback = MemoryProbe

record samplerEnv =
  rafQueue :: "frameCallback list"
  intervalTimers :: "(nat \<times> intervalCallback) list"
  memoryAPI :: bool

text \<open>The constructor; \<open>now\<close> is what \<open>performance.now()\<close> returns in it.\<close>

definition new_GamePerformanceMonitor :: "jstring option \<Rightarrow> real \<Rightarrow> GamePerformanceMonitor" where
  "new_GamePerformanceMonitor gameName now =
     \<lparr> pm_gameName = (case gameName of None \<Rightarrow> unknownGame | Some g \<Rightarrow> g),
       metrics = \<lparr> fps = [], memory = [], loadTime = None \<rparr>,
       frameCount = 0,
       lastTime = now,
       pm_initialized = False \<rparr>"

text \<open>
  The closure \<open>measureFPS\<close> of \<open>startFPSMonitoring\<close>, run once per animation frame;
  \<open>currentTime\<close> is what \<open>performance.now()\<close> returns in it. It ends by asking for the
  next frame.
\<close>

definition measureFPS ::
  "real \<Rightarrow> GamePerformanceMonitor \<times> samplerEnv \<Rightarrow> GamePerformanceMonitor \<times> samplerEnv" where
  "measureFPS currentTime s =
     (let m = fst s; env = snd s;
          m1 = m\<lparr>frameCount := frameCount m + 1\<rparr>;
          elapsed = currentTime - lastTime m1;
          m2 = (if elapsed \<ge> 1000 then
                  (let sample = Math_round ((real (frameCount m1) * 1000) / elapsed);
                       pushed = fps (metrics m1) @ [sample];
                       kept = (if length pushed > 60 then tl pushed else pushed)
                   in m1\<lparr>metrics := (metrics m1)\<lparr>fps := kept\<rparr>,
                          frameCount := 0,
                          lastTime := currentTime\<rparr>)
                else m1)
      in (m2, env\<lparr>rafQueue := rafQueue env @ [MeasureFPS]\<rparr>))"

definition startFPSMonitoring ::
  "GamePerformanceMonitor \<times> samplerEnv \<Rightarrow> GamePerformanceMonitor \<times> samplerEnv" where
  "startFPSMonitoring s = (fst s, (snd s)\<lparr>rafQueue := rafQueue (snd s) @ [MeasureFPS]\<rparr>)"

text \<open>
  The interval callback of \<open>startMemoryMonitoring\<close>. Its argument is the snapshot built
  from \<open>performance.memory\<close> and \<open>Date.now()\<close>, or \<open>None\<close> when reading it throws: the
  exception is caught and nothing is stored.
\<close>

definition memoryProbe ::
  "memorySnapshot option \<Rightarrow> GamePerformanceMonitor \<Rightarrow> GamePerformanceMonitor" where
  "memoryProbe reading m =
     (case reading of
        None \<Rightarrow> m
      | Some snapshot \<Rightarrow>
          (let pushed = memory (metrics m) @ [snapshot];
               kept = (if length pushed > 60 then tl pushed else pushed)
           in m\<lparr>metrics := (metrics m)\<lparr>memory := kept\<rparr>\<rparr>))"

definition startMemoryMonitoring ::
  "GamePerformanceMonitor \<times> samplerEnv \<Rightarrow> GamePerformanceMonitor \<times> samplerEnv" where
  "startMemoryMonitoring s =
     (fst s, (snd s)\<lparr>intervalTimers := intervalTimers (snd s) @ [(5000, MemoryProbe)]\<rparr>)"

text \<open>\<open>init\<close> of the monitor; \<open>now\<close> is what \<open>performance.now()\<close> returns in it.\<close>

definition pm_init ::
  "real \<Rightarrow> GamePerformanceMonitor \<times> samplerEnv \<Rightarrow> GamePerformanceMonitor \<times> samplerEnv" where
  "pm_init now s =
     (if pm_initialized (fst s) then s
      else
        (let m1 = (fst s)\<lparr>metrics := (metrics (fst s))\<lparr>loadTime := Some now\<rparr>\<rparr>;
             s2 = startFPSMonitoring (m1, snd s);
             s3 = (if memoryAPI (snd s2) then startMemoryMonitoring s2 else s2)
         in ((fst s3)\<lparr>pm_initialized := True\<rparr>, snd s3)))"

text \<open>
  What the page does to a monitor: an animation frame runs the first callback waiting
  for it, if there is one; an interval that fires runs the memory probe, if one is
  registered.
\<close>

datatype samplerEvent = AnimationFrame real | IntervalFired "memorySnapshot option"

fun samplerStep ::
  "samplerEvent \<Rightarrow> GamePerformanceMonitor \<times> samplerEnv \<Rightarrow> GamePerformanceMonitor \<times> samplerEnv" where
  "samplerStep (AnimationFrame t) (m, env) =
     (case rafQueue env of
        [] \<Rightarrow> (m, env)
      | MeasureFPS # waiting \<Rightarrow> measureFPS t (m, env\<lparr>rafQueue := waiting\<rparr>))"
| "samplerStep (IntervalFired reading) (m, env) =
     (case intervalTimers env of
        [] \<Rightarrow> (m, env)
      | timer # others \<Rightarrow> (memoryProbe reading m, env))"

fun samplerRun ::
  "samplerEvent list \<Rightarrow> GamePerformanceMonitor \<times> samplerEnv \<Rightarrow> GamePerformanceMonitor \<times> samplerEnv" where
  "samplerRun [] s = s"
| "samplerRun (ev # evs) s = samplerRun evs (samplerStep ev s)"

text \<open>A page on which nothing is registered yet.\<close>

definition idleEnv :: "bool \<Rightarrow> samplerEnv" where
  "idleEnv hasMemory = \<lparr> rafQueue = [], intervalTimers = [], memoryAPI = hasMemory \<rparr>"

text \<open>
  The frame times of \<open>n\<close> frames spread evenly over the 1000 ms that follow \<open>anchor\<close>:
  frame \<open>k\<close> (from 1 to \<open>n\<close>) comes at \<open>anchor + 1000 * k / n\<close>.
\<close>

definition uniformFrames :: "real \<Rightarrow> nat \<Rightarrow> samplerEvent list" where
  "uniformFrames anchor n =
     map (\<lambda>k. AnimationFrame (anchor + 1000 * real k / real n)) [1..<Suc n]"

record performanceReport =
  rep_game :: jstring
  rep_loadTime :: "real option"
  currentFPS :: int
  averageFPS :: int
  minFPS :: int
  maxFPS :: int
  fpsSamples :: nat
  memorySamples :: nat
  lastMemory :: "memorySnapshot option"

text \<open>
  \<open>Math.min(...fps)\<close> and \<open>Math.max(...fps)\<close>, called by the source on a non-empty
  array only.
\<close>

definition Math_min :: "int list \<Rightarrow> int" where
  "Math_min xs = foldl min (hd xs) (tl xs)"

definition Math_max :: "int list \<Rightarrow> int" where
  "Math_max xs = foldl max (hd xs) (tl xs)"

definition getPerformanceReport :: "GamePerformanceMonitor \<Rightarrow> performanceReport" where
  "getPerformanceReport m =
     (let fs = fps (metrics m);
          avgFPS = (if length fs > 0
                    then Math_round (real_of_int (foldl (\<lambda>a b. a + b) 0 fs) / real (length fs))
                    else 0);
          minF = (if length fs > 0 then Math_min fs else 0);
          maxF = (if length fs > 0 then Math_max fs else 0)
      in \<lparr> rep_game = pm_gameName m,
           rep_loadTime = loadTime (metrics m),
           currentFPS = (if length fs > 0 then fs ! (length fs - 1) else 0),
           averageFPS = avgFPS,
           minFPS = minF,
           maxFPS = maxF,
           fpsSamples = length fs,
           memorySamples = length (memory (metrics m)),
           lastMemory = (if length (memory (metrics m)) > 0
                         then Some (memory (metrics m) ! (length (memory (metrics m)) - 1))
                         else None) \<rparr>)"

text \<open>The three advisory strings of \<open>getPerformanceSuggestions\<close>, by their code units.\<close>

definition lowFPSSuggestion :: jstring where
  "lowFPSSuggestion =
     [0x904A, 0x6232, 0x0046, 0x0050, 0x0053, 0x8F03, 0x4F4E, 0xFF0C, 0x5EFA, 0x8B70,
      0x964D, 0x4F4E, 0x5716, 0x5F62, 0x8CEA, 0x91CF, 0x6216, 0x95DC, 0x9589, 0x5176,
      0x4ED6, 0x61C9, 0x7528, 0x7A0B, 0x5F0F]"

definition veryLowFPSSuggestion :: jstring where
  "veryLowFPSSuggestion =
     [0x904A, 0x6232, 0x0046, 0x0050, 0x0053, 0x975E, 0x5E38, 0x4F4E, 0xFF0C, 0x53EF,
      0x80FD, 0x5F71, 0x97FF, 0x904A, 0x6232, 0x9AD4, 0x9A57]"

definition highMemorySuggestion :: jstring where
  "highMemorySuggestion =
     [0x904A, 0x6232, 0x5167, 0x5B58, 0x4F7F, 0x7528, 0x8F03, 0x9AD8, 0xFF0C, 0x5EFA,
      0x8B70, 0x5B9A, 0x671F, 0x91CD, 0x555F, 0x904A, 0x6232]"

definition getPerformanceSuggestions :: "GamePerformanceMonitor \<Rightarrow> jstring list" where
  "getPerformanceSuggestions m =
     (let report = getPerformanceReport m;
          s0 = [];
          s1 = (if averageFPS report < 30 then s0 @ [lowFPSSuggestion] else s0);
          s2 = (if averageFPS report < 20 then s1 @ [veryLowFPSSuggestion] else s1);
          s3 = (case lastMemory report of
                  None \<Rightarrow> s2
                | Some snapshot \<Rightarrow>
                    (if usedJSHeapSize snapshot > 500 * 1024 * 1024
                     then s2 @ [highMemorySuggestion] else s2))
      in s3)"

section \<open>The page seen by GameErrorHandler\<close>

text \<open>
  What \<open>GameErrorHandler.init\<close> installs: the listeners added to \<open>window\<close> (event type
  and listener), the number of \<open>try/catch\<close> wrappers put around \<open>fillRect\<close>,
  \<open>drawImage\<close> and \<open>clearRect\<close> of \<open>CanvasRenderingContext2D.prototype\<close> by
  \<open>patchCanvasMethods\<close>, and the number of wrappers put around
  \<open>window.requestAnimationFrame\<close> by \<open>patchRequestAnimationFrame\<close>. What the listeners
  and the wrappers do when they run is not part of the model.
\<close>

datatype windowListener = ErrorListener | RejectionListener

record handlerEnv =
  windowListeners :: "(jstring \<times> windowListener) list"
  canvasGuards :: nat
  rafGuards :: nat

definition patchCanvasMethods :: "handlerEnv \<Rightarrow> handlerEnv" where
  "patchCanvasMethods env = env\<lparr>canvasGuards := canvasGuards env + 1\<rparr>"

definition patchRequestAnimationFrame :: "handlerEnv \<Rightarrow> handlerEnv" where
  "patchRequestAnimationFrame env = env\<lparr>rafGuards := rafGuards env + 1\<rparr>"

definition eh_init :: "GameErrorHandler \<times> handlerEnv \<Rightarrow> GameErrorHandler \<times> handlerEnv" where
  "eh_init s =
     (if eh_initialized (fst s) then s
      else
        (let e1 = (snd s)\<lparr>windowListeners :=
                      windowListeners (snd s) @ [(js ''error'', ErrorListener)]\<rparr>;
             e2 = e1\<lparr>windowListeners :=
                      windowListeners e1 @ [(js ''unhandledrejection'', RejectionListener)]\<rparr>;
             e3 = patchCanvasMethods e2;
             e4 = patchRequestAnimationFrame e3
         in ((fst s)\<lparr>eh_initialized := True\<rparr>, e4)))"

section \<open>The document\<close>

text \<open>
  An element has a tag name (in lower case, as selectors match it), its attributes other
  than \<open>class\<close> and \<open>style\<close>, the tokens of its \<open>classList\<close>, the text of its inline
  style (\<open>style.cssText\<close>), its \<open>textContent\<close> and the markup last assigned to its
  \<open>innerHTML\<close>. Markup is not parsed: \<open>textContent\<close> and \<open>innerHTML\<close> are two
  independent fields, and the source reads \<open>textContent\<close> of buttons only and assigns
  \<open>innerHTML\<close> only to the help element it creates.

  Elements live in a store, \<open>nodes\<close>; an element is referred to by its index there, as
  the source refers to it by object identity. The document is an HTML document with
  its \<open>html\<close>, \<open>head\<close> and \<open>body\<close> elements; \<open>headContent\<close> and \<open>bodyContent\<close> list
  the descendants of \<open>head\<close> and of \<open>body\<close> in tree order, so that an element appended
  to either comes last in its list. The page also holds the \<open>keydown\<close> listeners of
  the document, the state and the \<open>change\<close> listeners of the media query
  \<open>(forced-colors: active)\<close>, the pending \<open>setTimeout\<close> callbacks with the time at
  which each is due, and the time in milliseconds. What the \<open>keydown\<close> and \<open>change\<close>
  listeners do when they run is not part of the model.

  The platform calls of the source are taken to succeed: \<open>document.head\<close> and
  \<open>document.body\<close> exist, and \<open>window.matchMedia\<close>, \<open>CanvasRenderingContext2D\<close> and
  \<open>requestAnimationFrame\<close> are defined, so that no call of \<open>init\<close> is cut short by an
  exception.
\<close>

record element =
  tagName :: jstring
  attributes :: "jstring \<rightharpoonup> jstring"
  classList :: "jstring list"
  cssText :: jstring
  textContent :: jstring
  innerHTML :: jstring

datatype keydownListener = ToggleHelp nat

datatype mediaListener = ContrastChange

datatype timeoutCallback = ClearText nat

record page =
  nodes :: "element list"
  rootNode :: nat
  headNode :: nat
  bodyNode :: nat
  headContent :: "nat list"
  bodyContent :: "nat list"
  keydownListeners :: "keydownListener list"
  forcedColors :: bool
  mediaListeners :: "mediaListener list"
  timeouts :: "(nat \<times> timeoutCallback) list"
  clock :: nat

definition treeOrder :: "page \<Rightarrow> nat list" where
  "treeOrder p = rootNode p # headNode p # headContent p @ bodyNode p # bodyContent p"

definition createElement :: "jstring \<Rightarrow> page \<Rightarrow> nat \<times> page" where
  "createElement tag p =
     (length (nodes p),
      p\<lparr>nodes := nodes p @ [\<lparr> tagName = tag, attributes = Map.empty, classList = [],
                               cssText = [], textContent = [], innerHTML = [] \<rparr>]\<rparr>)"

definition appendChild_head :: "nat \<Rightarrow> page \<Rightarrow> page" where
  "appendChild_head child p = p\<lparr>headContent := headContent p @ [child]\<rparr>"

definition appendChild_body :: "nat \<Rightarrow> page \<Rightarrow> page" where
  "appendChild_body child p = p\<lparr>bodyContent := bodyContent p @ [child]\<rparr>"

definition updateNode :: "nat \<Rightarrow> (element \<Rightarrow> element) \<Rightarrow> page \<Rightarrow> page" where
  "updateNode i f p = p\<lparr>nodes := (nodes p)[i := f (nodes p ! i)]\<rparr>"

definition hasAttribute :: "element \<Rightarrow> jstring \<Rightarrow> bool" where
  "hasAttribute e name = (attributes e name \<noteq> None)"

definition getAttribute :: "element \<Rightarrow> jstring \<Rightarrow> jstring option" where
  "getAttribute e name = attributes e name"

definition setAttribute :: "nat \<Rightarrow> jstring \<Rightarrow> jstring \<Rightarrow> page \<Rightarrow> page" where
  "setAttribute i name v p = updateNode i (\<lambda>e. e\<lparr>attributes := (attributes e)(name \<mapsto> v)\<rparr>) p"

text \<open>The \<open>id\<close> property reflects the \<open>id\<close> attribute and is empty without it.\<close>

definition elemId :: "element \<Rightarrow> jstring" where
  "elemId e = (case attributes e (js ''id'') of None \<Rightarrow> [] | Some v \<Rightarrow> v)"

definition classList_contains :: "element \<Rightarrow> jstring \<Rightarrow> bool" where
  "classList_contains e token = (token \<in> set (classList e))"

definition classList_add :: "nat \<Rightarrow> jstring \<Rightarrow> page \<Rightarrow> page" where
  "classList_add i token p =
     updateNode i (\<lambda>e. if token \<in> set (classList e) then e
                        else e\<lparr>classList := classList e @ [token]\<rparr>) p"

definition setClassName :: "nat \<Rightarrow> jstring \<Rightarrow> page \<Rightarrow> page" where
  "setClassName i token p = updateNode i (\<lambda>e. e\<lparr>classList := [token]\<rparr>) p"

definition setCssText :: "nat \<Rightarrow> jstring \<Rightarrow> page \<Rightarrow> page" where
  "setCssText i v p = updateNode i (\<lambda>e. e\<lparr>cssText := v\<rparr>) p"

definition setTextContent :: "nat \<Rightarrow> jstring \<Rightarrow> page \<Rightarrow> page" where
  "setTextContent i v p = updateNode i (\<lambda>e. e\<lparr>textContent := v\<rparr>) p"

definition setInnerHTML :: "nat \<Rightarrow> jstring \<Rightarrow> page \<Rightarrow> page" where
  "setInnerHTML i v p = updateNode i (\<lambda>e. e\<lparr>innerHTML := v\<rparr>) p"

definition getElementById :: "page \<Rightarrow> jstring \<Rightarrow> nat option" where
  "getElementById p ident =
     find (\<lambda>i. attributes (nodes p ! i) (js ''id'') = Some ident) (treeOrder p)"

text \<open>
  The selectors of the source are comma lists of a tag name or a class; the result of
  \<open>querySelectorAll\<close> is a static list in tree order.
\<close>

datatype simpleSelector = ByTag jstring | ByClass jstring

fun matchesSimple :: "simpleSelector \<Rightarrow> element \<Rightarrow> bool" where
  "matchesSimple (ByTag t) e = (tagName e = t)"
| "matchesSimple (ByClass c) e = (c \<in> set (classList e))"

definition querySelectorAll :: "simpleSelector list \<Rightarrow> page \<Rightarrow> nat list" where
  "querySelectorAll sel p =
     filter (\<lambda>i. list_ex (\<lambda>s. matchesSimple s (nodes p ! i)) sel) (treeOrder p)"

text \<open>
  \<open>String.prototype.trim\<close> strips the white space and line terminators of ECMAScript
  from both ends.
\<close>

definition isWhiteSpace :: "nat \<Rightarrow> bool" where
  "isWhiteSpace c =
     (c \<in> {0x09, 0x0A, 0x0B, 0x0C, 0x0D, 0x20, 0xA0, 0x1680, 0x2028, 0x2029, 0x202F,
            0x205F, 0x3000, 0xFEFF}
      \<or> (0x2000 \<le> c \<and> c \<le> 0x200A))"

definition trim :: "jstring \<Rightarrow> jstring" where
  "trim s = rev (dropWhile isWhiteSpace (rev (dropWhile isWhiteSpace s)))"

text \<open>The string a value turns into when it is stored as an attribute.\<close>

definition toString :: "jstring option \<Rightarrow> jstring" where
  "toString v = (case v of None \<Rightarrow> js ''null'' | Some s \<Rightarrow> s)"

text \<open>A template literal that spans lines: each line of the list ends with a line feed.\<close>

definition unlines :: "string list \<Rightarrow> jstring" where
  "unlines ls = concat (map (\<lambda>l. js l @ [0x0A]) ls)"

section \<open>GameAccessibility\<close>

record GameAccessibility =
  ga_initialized :: bool

definition new_GameAccessibility :: GameAccessibility where
  "new_GameAccessibility = \<lparr> ga_initialized = False \<rparr>"

definition buttonLabel :: jstring where
  "buttonLabel = [0x6309, 0x9215]"

definition getButtonLabel :: "element \<Rightarrow> jstring option" where
  "getButtonLabel button =
     lor (lor (lor (lor (getAttribute button (js ''aria-label''))
                        (Some (trim (textContent button))))
                   (getAttribute button (js ''title'')))
              (Some (elemId button)))
         (Some buttonLabel)"

definition focusStyleText :: jstring where
  "focusStyleText =
     [0x0A] @ unlines
       [''                    button.has-focus-style:focus {'',
        ''                        outline: 3px solid #4CAF50 !important;'',
        ''                        outline-offset: 2px !important;'',
        ''                        box-shadow: 0 0 0 3px rgba(76, 175, 80, 0.3) !important;'',
        ''                    }'']
      @ js ''                ''"

text \<open>The callback that \<open>addButtonAccessibility\<close> runs for each button.\<close>

definition addButtonAccessibility_each :: "nat \<Rightarrow> page \<Rightarrow> page" where
  "addButtonAccessibility_each button p =
     (let p1 = (if \<not> hasAttribute (nodes p ! button) (js ''aria-label'')
                then (let label = getButtonLabel (nodes p ! button)
                      in setAttribute button (js ''aria-label'') (toString label) p)
                else p)
      in if \<not> classList_contains (nodes p1 ! button) (js ''has-focus-style'')
         then (let p2 = classList_add button (js ''has-focus-style'') p1;
                   (style, p3) = createElement (js ''style'') p2;
                   p4 = setTextContent style focusStyleText p3
               in appendChild_head style p4)
         else p1)"

definition addButtonAccessibility :: "page \<Rightarrow> page" where
  "addButtonAccessibility p =
     fold addButtonAccessibility_each (querySelectorAll [ByTag (js ''button'')] p) p"

definition imageAlt :: jstring where
  "imageAlt = [0x904A, 0x6232, 0x5716, 0x7247]"

definition addImageAccessibility_each :: "nat \<Rightarrow> page \<Rightarrow> page" where
  "addImageAccessibility_each img p =
     (if \<not> hasAttribute (nodes p ! img) (js ''alt'')
      then (let alt = lor (lor (lor (getAttribute (nodes p ! img) (js ''aria-label''))
                                    (getAttribute (nodes p ! img) (js ''title'')))
                               (Some (elemId (nodes p ! img))))
                          (Some imageAlt)
            in setAttribute img (js ''alt'') (toString alt) p)
      else p)"

definition addImageAccessibility :: "page \<Rightarrow> page" where
  "addImageAccessibility p =
     fold addImageAccessibility_each (querySelectorAll [ByTag (js ''img'')] p) p"

definition gameAreaLabel :: jstring where
  "gameAreaLabel = [0x904A, 0x6232, 0x5340, 0x57DF]"

definition addKeyboardNavigation_each :: "nat \<Rightarrow> page \<Rightarrow> page" where
  "addKeyboardNavigation_each container p =
     (let p1 = (if \<not> hasAttribute (nodes p ! container) (js ''tabindex'')
                then setAttribute container (js ''role'') (js ''application'')
                       (setAttribute container (js ''tabindex'') (js ''0'') p)
                else p)
      in if \<not> hasAttribute (nodes p1 ! container) (js ''aria-label'')
         then (let label = lor (lor (getAttribute (nodes p1 ! container) (js ''aria-label''))
                                    (Some (elemId (nodes p1 ! container))))
                               (Some gameAreaLabel)
               in setAttribute container (js ''aria-label'') (toString label) p1)
         else p1)"

definition shortcuts :: "(jstring \<times> jstring) list" where
  "shortcuts =
     [([0x7A7A, 0x683C, 0x9375], [0x958B, 0x59CB] @ js ''/'' @ [0x66AB, 0x505C, 0x904A, 0x6232]),
      (js ''ESC'' @ [0x9375], [0x8FD4, 0x56DE] @ js ''/'' @ [0x9000, 0x51FA]),
      ([0x65B9, 0x5411, 0x9375], [0x79FB, 0x52D5, 0x63A7, 0x5236]),
      (js ''P'' @ [0x9375], [0x66AB, 0x505C, 0x904A, 0x6232]),
      (js ''R'' @ [0x9375], [0x91CD, 0x65B0, 0x958B, 0x59CB])]"

text \<open>\<open>Array.prototype.join\<close> on strings.\<close>

fun join :: "jstring \<Rightarrow> jstring list \<Rightarrow> jstring" where
  "join sep [] = []"
| "join sep [x] = x"
| "join sep (x # y # ys) = x @ sep @ join sep (y # ys)"

definition helpStyleText :: jstring where
  "helpStyleText =
     [0x0A] @ unlines
       [''            position: fixed;'',
        ''            bottom: 10px;'',
        ''            right: 10px;'',
        ''            background: rgba(0,0,0,0.8);'',
        ''            color: white;'',
        ''            padding: 10px;'',
        ''            border-radius: 5px;'',
        ''            font-size: 12px;'',
        ''            z-index: 10000;'',
        ''            display: none;'']
      @ js ''        ''"

definition addKeyboardShortcutsHelp :: "page \<Rightarrow> page" where
  "addKeyboardShortcutsHelp p =
     (let (helpElement, p1) = createElement (js ''div'') p;
          p2 = setClassName helpElement (js ''keyboard-shortcuts-help'') p1;
          p3 = setCssText helpElement helpStyleText p2;
          p4 = setInnerHTML helpElement
                 (js ''<strong>'' @ [0x9375, 0x76E4, 0x5FEB, 0x6377, 0x9375] @ js ''</strong><br>'' @
                  join (js ''<br>'') (map (\<lambda>(k, desc). k @ js '': '' @ desc) shortcuts)) p3;
          p5 = appendChild_body helpElement p4
      in p5\<lparr>keydownListeners := keydownListeners p5 @ [ToggleHelp helpElement]\<rparr>)"

definition addKeyboardNavigation :: "page \<Rightarrow> page" where
  "addKeyboardNavigation p =
     addKeyboardShortcutsHelp
       (fold addKeyboardNavigation_each
          (querySelectorAll [ByTag (js ''canvas''), ByClass (js ''game-container''),
                             ByClass (js ''game-area'')] p) p)"

definition highContrastStyleText :: jstring where
  "highContrastStyleText =
     [0x0A] @ unlines
       [''            .high-contrast-mode {'',
        ''                --hc-text: white !important;'',
        ''                --hc-bg: black !important;'',
        ''                --hc-border: white !important;'',
        ''            }'',
        ''            '',
        ''            .high-contrast-mode * {'',
        ''                color: var(--hc-text) !important;'',
        ''                background-color: var(--hc-bg) !important;'',
        ''                border-color: var(--hc-border) !important;'',
        ''            }'',
        ''            '',
        ''            .high-contrast-mode canvas {'',
        ''                border: 3px solid white !important;'',
        ''            }'']
      @ js ''        ''"

definition applyHighContrastStyles :: "page \<Rightarrow> page" where
  "applyHighContrastStyles p =
     (let (style, p1) = createElement (js ''style'') p;
          p2 = setAttribute style (js ''id'') (js ''high-contrast-styles'') p1;
          p3 = setTextContent style highContrastStyleText p2
      in appendChild_head style p3)"

definition detectHighContrastMode :: "page \<Rightarrow> page" where
  "detectHighContrastMode p =
     (let p1 = (if forcedColors p
                then applyHighContrastStyles
                       (classList_add (rootNode p) (js ''high-contrast-mode'') p)
                else p)
      in p1\<lparr>mediaListeners := mediaListeners p1 @ [ContrastChange]\<rparr>)"

definition ga_init :: "GameAccessibility \<times> page \<Rightarrow> GameAccessibility \<times> page" where
  "ga_init s =
     (if ga_initialized (fst s) then s
      else
        (let p1 = addButtonAccessibility (snd s);
             p2 = addImageAccessibility p1;
             p3 = addKeyboardNavigation p2;
             p4 = detectHighContrastMode p3
         in ((fst s)\<lparr>ga_initialized := True\<rparr>, p4)))"

text \<open>
  \<open>setTimeout\<close> and the passing of time: \<open>elapse dt\<close> moves the clock on by \<open>dt\<close>
  milliseconds and runs the callbacks that are due by then, the earliest first and in
  the order of their scheduling among equals.
\<close>

definition setTimeout :: "timeoutCallback \<Rightarrow> nat \<Rightarrow> page \<Rightarrow> page" where
  "setTimeout callback delay p = p\<lparr>timeouts := timeouts p @ [(clock p + delay, callback)]\<rparr>"

fun runTimeout :: "timeoutCallback \<Rightarrow> page \<Rightarrow> page" where
  "runTimeout (ClearText liveRegion) p = setTextContent liveRegion [] p"

definition elapse :: "nat \<Rightarrow> page \<Rightarrow> page" where
  "elapse dt p =
     (let now = clock p + dt;
          due = filter (\<lambda>(t, callback). t \<le> now) (timeouts p);
          pending = filter (\<lambda>(t, callback). \<not> t \<le> now) (timeouts p)
      in fold (\<lambda>(t, callback). runTimeout callback) (sort_key fst due)
           (p\<lparr>clock := now, timeouts := pending\<rparr>))"

definition liveRegionStyle :: jstring where
  "liveRegionStyle =
     js ''position: absolute; left: -9999px; width: 1px; height: 1px; overflow: hidden;''"

text \<open>
  \<open>announceToScreenReader(message, priority)\<close>, with \<open>msg\<close> for \<open>message\<close>;
  \<open>priority\<close> is \<open>None\<close> when the argument is omitted.
\<close>

definition announceToScreenReader :: "jstring \<Rightarrow> jstring option \<Rightarrow> page \<Rightarrow> page" where
  "announceToScreenReader msg priority p =
     (let (liveRegion, p1) =
            (case getElementById p (js ''screen-reader-announcements'') of
               Some found \<Rightarrow> (found, p)
             | None \<Rightarrow>
                 (let (created, q1) = createElement (js ''div'') p;
                      q2 = setAttribute created (js ''id'') (js ''screen-reader-announcements'') q1;
                      q3 = setAttribute created (js ''aria-live'')
                             (case priority of None \<Rightarrow> js ''polite'' | Some pr \<Rightarrow> pr) q2;
                      q4 = setAttribute created (js ''aria-atomic'') (js ''true'') q3;
                      q5 = setCssText created liveRegionStyle q4
                  in (created, appendChild_body created q5)));
          p2 = setTextContent liveRegion msg p1
      in setTimeout (ClearText liveRegion) 1000 p2)"

text \<open>What happens to the live region over time: announcements and the passing of time.\<close>

datatype regionEvent = Announce jstring "jstring option" | Elapse nat

fun regionStep :: "regionEvent \<Rightarrow> page \<Rightarrow> page" where
  "regionStep (Announce msg priority) p = announceToScreenReader msg priority p"
| "regionStep (Elapse dt) p = elapse dt p"

fun regionRun :: "regionEvent list \<Rightarrow> page \<Rightarrow> page" where
  "regionRun [] p = p"
| "regionRun (ev # evs) p = regionRun evs (regionStep ev p)"

section \<open>Auxiliary notions for the statements\<close>

text \<open>
  The idiom the source uses for each of its bounded lists: \<open>push\<close> the new entry, then
  \<open>shift\<close> once if the list has grown beyond the bound.
\<close>

definition pushShift :: "nat \<Rightarrow> 'a list \<Rightarrow> 'a \<Rightarrow> 'a list" where
  "pushShift n xs x = (if length (xs @ [x]) > n then tl (xs @ [x]) else xs @ [x])"

text \<open>
  A monitor constructed at time \<open>t0\<close> and initialised at time \<open>t1\<close> on a page where
  nothing is registered yet.
\<close>

definition startedSampler ::
  "jstring option \<Rightarrow> real \<Rightarrow> bool \<Rightarrow> real \<Rightarrow> GamePerformanceMonitor \<times> samplerEnv" where
  "startedSampler g t0 hasMemory t1 =
     pm_init t1 (new_GamePerformanceMonitor g t0, idleEnv hasMemory)"

definition seriesBounded :: "GamePerformanceMonitor \<times> samplerEnv \<Rightarrow> bool" where
  "seriesBounded s =
     (length (fps (metrics (fst s))) \<le> 60 \<and> length (memory (metrics (fst s))) \<le> 60)"

text \<open>
  A page is well formed when every element of the tree is in the store and no element
  stands twice in the tree.
\<close>

definition wfPage :: "page \<Rightarrow> bool" where
  "wfPage p = (list_all (\<lambda>i. i < length (nodes p)) (treeOrder p) \<and> distinct (treeOrder p))"

text \<open>
  The label that the fallback priority of the specification gives a button: the first
  non-empty one of its label attribute, its visible text, its title attribute and its
  identifier, and the generic label when all four are empty or missing.
\<close>

fun firstNonEmpty :: "jstring list \<Rightarrow> jstring \<Rightarrow> jstring" where
  "firstNonEmpty [] fallback = fallback"
| "firstNonEmpty (x # xs) fallback = (if x \<noteq> [] then x else firstNonEmpty xs fallback)"

definition attributeOrEmpty :: "element \<Rightarrow> jstring \<Rightarrow> jstring" where
  "attributeOrEmpty e name = (case attributes e name of None \<Rightarrow> [] | Some v \<Rightarrow> v)"

definition labelByPriority :: "element \<Rightarrow> jstring" where
  "labelByPriority b =
     firstNonEmpty [attributeOrEmpty b (js ''aria-label''), trim (textContent b),
                    attributeOrEmpty b (js ''title''), attributeOrEmpty b (js ''id'')]
       buttonLabel"

text \<open>The buttons of a page, and the live region with its text.\<close>

definition buttonsOf :: "page \<Rightarrow> nat list" where
  "buttonsOf p = querySelectorAll [ByTag (js ''button'')] p"

definition liveRegionOf :: "page \<Rightarrow> nat option" where
  "liveRegionOf p = getElementById p (js ''screen-reader-announcements'')"

definition regionText :: "page \<Rightarrow> jstring option" where
  "regionText p = map_option (\<lambda>i. textContent (nodes p ! i)) (liveRegionOf p)"

text \<open>
  The style elements among the descendants of \<open>head\<close> that carry the focus rule.
\<close>

definition focusStylesOf :: "page \<Rightarrow> nat list" where
  "focusStylesOf p =
     filter (\<lambda>i. tagName (nodes p ! i) = js ''style'' \<and> textContent (nodes p ! i) = focusStyleText)
       (headContent p)"

text \<open>
  Pages for the examples: the elements \<open>html\<close>, \<open>head\<close> and \<open>body\<close> followed by the
  given elements as the content of \<open>body\<close>.
\<close>

definition plainElement :: "string \<Rightarrow> element" where
  "plainElement tag =
     \<lparr> tagName = js tag, attributes = Map.empty, classList = [], cssText = [],
       textContent = [], innerHTML = [] \<rparr>"

definition pageOf :: "element list \<Rightarrow> page" where
  "pageOf es =
     \<lparr> nodes = [plainElement ''html'', plainElement ''head'', plainElement ''body''] @ es,
       rootNode = 0, headNode = 1, bodyNode = 2,
       headContent = [], bodyContent = [3..<3 + length es],
       keydownListeners = [], forcedColors = False, mediaListeners = [],
       timeouts = [], clock = 0 \<rparr>"

text \<open>
  What the callback of \<open>addButtonAccessibility\<close> leaves of a button: the label by
  priority if it had no label attribute, and the marker class; and the style element the
  callback appends to \<open>head\<close>.
\<close>

definition annotateButton :: "element \<Rightarrow> element" where
  "annotateButton e =
     e\<lparr>attributes :=
          (if attributes e (js ''aria-label'') = None
           then (attributes e)(js ''aria-label'' \<mapsto> labelByPriority e)
           else attributes e),
       classList :=
          (if js ''has-focus-style'' \<in> set (classList e) then classList e
           else classList e @ [js ''has-focus-style''])\<rparr>"

definition focusStyleElement :: element where
  "focusStyleElement =
     \<lparr> tagName = js ''style'', attributes = Map.empty, classList = [], cssText = [],
       textContent = focusStyleText, innerHTML = [] \<rparr>"

definition unmarked :: "page \<Rightarrow> nat \<Rightarrow> bool" where
  "unmarked p b = (\<not> classList_contains (nodes p ! b) (js ''has-focus-style''))"

text \<open>Two pages that differ at most in the text of their elements.\<close>

definition textOnly :: "page \<Rightarrow> page \<Rightarrow> bool" where
  "textOnly p q =
     (treeOrder q = treeOrder p \<and> length (nodes q) = length (nodes p)
      \<and> (\<forall>i<length (nodes p). nodes q ! i = (nodes p ! i)\<lparr>textContent := textContent (nodes q ! i)\<rparr>))"

text \<open>
  The element that the first announcement creates, and the element that holds the live
  region once an announcement has been made on a page.
\<close>

definition liveRegionElement :: "jstring option \<Rightarrow> jstring \<Rightarrow> element" where
  "liveRegionElement priority text =
     \<lparr> tagName = js ''div'',
       attributes = [js ''id'' \<mapsto> js ''screen-reader-announcements'',
                     js ''aria-live'' \<mapsto> (case priority of None \<Rightarrow> js ''polite'' | Some pr \<Rightarrow> pr),
                     js ''aria-atomic'' \<mapsto> js ''true''],
       classList = [], cssText = liveRegionStyle, textContent = text, innerHTML = [] \<rparr>"

definition regionAfter :: "page \<Rightarrow> nat" where
  "regionAfter p = (case liveRegionOf p of None \<Rightarrow> length (nodes p) | Some r \<Rightarrow> r)"

text \<open>
  The two series of a monitor, and the condition that its frame loop is armed and that
  its memory interval is registered exactly when the page has \<open>performance.memory\<close>.
\<close>

definition fpsSeries :: "GamePerformanceMonitor \<times> samplerEnv \<Rightarrow> int list" where
  "fpsSeries s = fps (metrics (fst s))"

definition memorySeries :: "GamePerformanceMonitor \<times> samplerEnv \<Rightarrow> memorySnapshot list" where
  "memorySeries s = memory (metrics (fst s))"

definition loopsRunning :: "bool \<Rightarrow> GamePerformanceMonitor \<times> samplerEnv \<Rightarrow> bool" where
  "loopsRunning hasMemory s =
     (rafQueue (snd s) \<noteq> [] \<and> (intervalTimers (snd s) \<noteq> []) = hasMemory)"

text \<open>
  A button with an empty label attribute and the visible text \<open>Play\<close>:
  \<open><button aria-label="">Play</button>\<close>.
\<close>

definition emptyLabelButton :: element where
  "emptyLabelButton =
     (plainElement ''button'')\<lparr>attributes := [js ''aria-label'' \<mapsto> []], textContent := js ''Play''\<rparr>"

section \<open>Properties of GameErrorHandler\<close>

lemma handleError_fields:
  "eh_gameName (snd (handleError h f)) = eh_gameName h"
  "maxErrors (snd (handleError h f)) = maxErrors h"
  "eh_initialized (snd (handleError h f)) = eh_initialized h"
  by (simp_all add: handleError_def Let_def)

lemma push_shift:
  assumes "length xs \<le> m"
  shows "(if length (xs @ [e]) > m then tl (xs @ [e]) else xs @ [e]) =
         drop (Suc (length xs) - m) (xs @ [e])"
proof (cases "length xs = m")
  case True
  then have "Suc (length xs) - m = Suc 0" by simp
  moreover have "drop (Suc 0) (xs @ [e]) = tl (xs @ [e])" by (cases xs) simp_all
  ultimately show ?thesis using True by (simp del: drop_append)
next
  case False
  with assms have "length xs < m" by simp
  then show ?thesis by simp
qed

lemma handleError_errors:
  assumes "length (errors h) \<le> maxErrors h"
  shows "errors (snd (handleError h f)) =
         drop (Suc (length (errors h)) - maxErrors h) (errors h @ [mkErrorInfo (eh_gameName h) f])"
  using push_shift [OF assms, of "mkErrorInfo (eh_gameName h) f"]
  by (simp add: handleError_def Let_def)

lemma handleErrors_snoc:
  "handleErrors h (fs @ [f]) = snd (handleError (handleErrors h fs) f)"
  by (induction fs arbitrary: h) simp_all

lemma handleErrors_fields:
  "eh_gameName (handleErrors h fs) = eh_gameName h"
  "maxErrors (handleErrors h fs) = maxErrors h"
  "eh_initialized (handleErrors h fs) = eh_initialized h"
  by (induction fs arbitrary: h) (simp_all add: handleError_fields)

lemma drop_drop_snoc:
  assumes "k = length xs - m"
  shows "drop (Suc (length (drop k xs)) - m) (drop k xs @ [e]) = drop (Suc (length xs) - m) (xs @ [e])"
proof (cases "length xs < m")
  case True
  then show ?thesis using assms by simp
next
  case False
  then have "Suc (length (drop k xs)) - m = Suc 0" "Suc (length xs) - m = Suc k" "k \<le> length xs"
    using assms by simp_all
  moreover have "drop (Suc 0) (drop k xs @ [e]) = drop (Suc k) (xs @ [e])"
    using \<open>k \<le> length xs\<close> by simp
  ultimately show ?thesis by (simp del: drop_append)
qed

lemma handleErrors_errors:
  assumes "length (errors h) \<le> maxErrors h"
  shows "errors (handleErrors h fs) =
         drop (length (errors h) + length fs - maxErrors h)
              (errors h @ map (mkErrorInfo (eh_gameName h)) fs)"
proof (induction fs rule: rev_induct)
  case Nil
  then show ?case using assms by simp
next
  case (snoc f fs)
  let ?all = "errors h @ map (mkErrorInfo (eh_gameName h)) fs"
  let ?k = "length ?all - maxErrors h"
  let ?e = "mkErrorInfo (eh_gameName h) f"
  have IH: "errors (handleErrors h fs) = drop ?k ?all"
    using snoc.IH by simp
  then have "length (errors (handleErrors h fs)) \<le> maxErrors (handleErrors h fs)"
    by (simp add: handleErrors_fields)
  then have "errors (handleErrors h (fs @ [f])) =
        drop (Suc (length (drop ?k ?all)) - maxErrors h) (drop ?k ?all @ [?e])"
    unfolding handleErrors_snoc
    by (simp add: handleError_errors handleErrors_fields IH)
  also have "\<dots> = drop (Suc (length ?all) - maxErrors h) (?all @ [?e])"
    by (rule drop_drop_snoc) simp
  finally show ?case by simp
qed

lemma handleErrors_new:
  "errors (handleErrors (new_GameErrorHandler g) fs) =
   drop (length fs - 50) (map (mkErrorInfo (eh_gameName (new_GameErrorHandler g))) fs)"
  using handleErrors_errors [of "new_GameErrorHandler g" fs]
  by (simp add: new_GameErrorHandler_def)

text \<open>
  Claim C1. Take a handler as its constructor leaves it and capture more than 50
  faults through \<open>handleError\<close>. Then \<open>getErrorStats().total\<close> is 50 at the end and is
  at most 50 after every prefix of the sequence, and the stored records are the records
  of the last 50 faults, in arrival order: the oldest record leaves first.
\<close>

theorem errors_ring_keeps_last_50:
  assumes "50 < length fs"
  shows "total (getErrorStats (handleErrors (new_GameErrorHandler g) fs)) = 50
       \<and> (\<forall>n. total (getErrorStats (handleErrors (new_GameErrorHandler g) (take n fs))) \<le> 50)
       \<and> errors (handleErrors (new_GameErrorHandler g) fs) =
           map (mkErrorInfo (eh_gameName (new_GameErrorHandler g))) (drop (length fs - 50) fs)"
proof -
  have "\<And>n. min (length fs) n - (min (length fs) n - 50) \<le> (50::nat)" by arith
  then show ?thesis
    using assms by (simp add: getErrorStats_def handleErrors_new drop_map)
qed

theorem errors_ring_keeps_last_50_witness:
  "50 < length (replicate 51 \<lparr>f_error = OtherValue (js ''boom''), f_source = None, f_clock = js ''t''\<rparr>)
   \<and> total (getErrorStats (handleErrors (new_GameErrorHandler None)
        (replicate 51 \<lparr>f_error = OtherValue (js ''boom''), f_source = None, f_clock = js ''t''\<rparr>))) = 50"
  using errors_ring_keeps_last_50
    [of "replicate 51 \<lparr>f_error = OtherValue (js ''boom''), f_source = None, f_clock = js ''t''\<rparr>" None]
  by simp

section \<open>Properties of GamePerformanceMonitor\<close>

lemma measureFPS_fps_eq:
  "fps (metrics (fst (measureFPS t s))) =
     (if 1000 \<le> t - lastTime (fst s)
      then pushShift 60 (fps (metrics (fst s)))
             (Math_round ((real (frameCount (fst s) + 1) * 1000) / (t - lastTime (fst s))))
      else fps (metrics (fst s)))"
  by (simp add: measureFPS_def Let_def pushShift_def)

lemma measureFPS_fps:
  "fps (metrics (fst (measureFPS t s))) = fps (metrics (fst s)) \<or>
   (\<exists>x. fps (metrics (fst (measureFPS t s))) = pushShift 60 (fps (metrics (fst s))) x)"
  unfolding measureFPS_fps_eq by (cases "1000 \<le> t - lastTime (fst s)") (simp_all, blast)

lemma measureFPS_memory:
  "memory (metrics (fst (measureFPS t s))) = memory (metrics (fst s))"
  by (simp add: measureFPS_def Let_def)

lemma memoryProbe_fps:
  "fps (metrics (memoryProbe r m)) = fps (metrics m)"
  by (simp add: memoryProbe_def Let_def split: option.splits)

lemma memoryProbe_memory_eq:
  "memory (metrics (memoryProbe r m)) =
     (case r of None \<Rightarrow> memory (metrics m) | Some x \<Rightarrow> pushShift 60 (memory (metrics m)) x)"
  by (simp add: memoryProbe_def Let_def pushShift_def split: option.splits)

lemma memoryProbe_memory:
  "memory (metrics (memoryProbe r m)) = memory (metrics m) \<or>
   (\<exists>x. memory (metrics (memoryProbe r m)) = pushShift 60 (memory (metrics m)) x)"
  unfolding memoryProbe_memory_eq by (cases r) (simp_all, blast)

lemma samplerStep_fps:
  "fps (metrics (fst (samplerStep ev s))) = fps (metrics (fst s)) \<or>
   (\<exists>x. fps (metrics (fst (samplerStep ev s))) =
pushShift 60 (fps (metrics (fst s))) x)"
proof (cases s)
  case (Pair m env)
  show ?thesis
  proof (cases ev)
    case (AnimationFrame t)
    show ?thesis
    proof (cases "rafQueue env")
      case Nil
      then show ?thesis using Pair AnimationFrame by simp
    next
      case (Cons cb waiting)
      then show ?thesis
        using Pair AnimationFrame measureFPS_fps [of t "(m, env\<lparr>rafQueue := waiting\<rparr>)"]
        by (cases cb) simp
    qed
  next
    case (IntervalFired r)
    then show ?thesis using Pair
      by (simp add: memoryProbe_fps split: list.splits)
  qed
qed

lemma samplerStep_memory:
  "memory (metrics (fst (samplerStep ev s))) = memory (metrics (fst s)) \<or>
   (\<exists>x. memory (metrics (fst (samplerStep ev s))) =
pushShift 60 (memory (metrics (fst s))) x)"
proof (cases s)
  case (Pair m env)
  show ?thesis
  proof (cases ev)
    case (AnimationFrame t)
    show ?thesis
    proof (cases "rafQueue env")
      case Nil
      then show ?thesis using Pair AnimationFrame by simp
    next
      case (Cons cb waiting)
      then show ?thesis
        using Pair AnimationFrame
        by (cases cb) (simp add: measureFPS_memory)
    qed
  next
    case (IntervalFired r)
    show ?thesis
    proof (cases "intervalTimers env")
      case Nil
      then show ?thesis using Pair IntervalFired by simp
    next
      case (Cons timer others)
      then show ?thesis
        using Pair IntervalFired memoryProbe_memory [of r m] by simp
    qed
  qed
qed

lemma pushShift_drop:
  "length xs \<le> n \<Longrightarrow> pushShift n xs x = drop (Suc (length xs) - n) (xs @ [x])"
  unfolding pushShift_def by (rule push_shift)

lemma pushShift_length:
  "length xs \<le> n \<Longrightarrow> length (pushShift n xs x) \<le> n"
  by (simp add: pushShift_def)

lemma samplerStep_bounded:
  assumes "seriesBounded s"
  shows "seriesBounded (samplerStep ev s)"
proof -
  have f: "length (fps (metrics (fst (samplerStep ev s)))) \<le> 60"
    using samplerStep_fps [of ev s] assms
    by (auto simp: seriesBounded_def pushShift_length)
  have m: "length (memory (metrics (fst (samplerStep ev s)))) \<le> 60"
    using samplerStep_memory [of ev s] assms
    by (auto simp: seriesBounded_def pushShift_length)
  from f m show ?thesis by (simp add: seriesBounded_def)
qed

lemma samplerRun_bounded:
  "seriesBounded s \<Longrightarrow> seriesBounded (samplerRun evs s)"
  by (induction evs arbitrary: s) (simp_all add: samplerStep_bounded)

lemma startedSampler_bounded: "seriesBounded (startedSampler g t0 hm t1)"
  by (simp add: seriesBounded_def startedSampler_def pm_init_def new_GamePerformanceMonitor_def
      startFPSMonitoring_def startMemoryMonitoring_def Let_def)

lemma samplerRun_append:
  "samplerRun (xs @ ys) s = samplerRun ys (samplerRun xs s)"
  by (induction xs arbitrary: s) simp_all

lemma measureFPS_quiet:
  assumes "t - lastTime m < 1000"
  shows "measureFPS t (m, env) =
         (m\<lparr>frameCount := frameCount m + 1\<rparr>, env\<lparr>rafQueue := rafQueue env @ [MeasureFPS]\<rparr>)"
  using assms by (simp add: measureFPS_def Let_def)

lemma measureFPS_report:
  assumes "1000 \<le> t - lastTime m"
  shows "fst (measureFPS t (m, env)) =
         m\<lparr>metrics := (metrics m)\<lparr>fps := pushShift 60 (fps (metrics m))
                (Math_round ((real (frameCount m + 1) * 1000) / (t - lastTime m)))\<rparr>,
           frameCount := 0, lastTime := t\<rparr>"
  using assms by (simp add: measureFPS_def Let_def pushShift_def)

lemma samplerStep_frame_armed:
  assumes "rafQueue env \<noteq> []"
  shows "samplerStep (AnimationFrame t) (m, env) = measureFPS t (m, env\<lparr>rafQueue := tl (rafQueue env)\<rparr>)"
proof (cases "rafQueue env")
  case Nil
  with assms show ?thesis by simp
next
  case (Cons cb waiting)
  then show ?thesis by (cases cb) simp
qed

lemma samplerRun_quiet:
  assumes "\<forall>t\<in>set ts. t - lastTime m < 1000" and "rafQueue env \<noteq> []"
  shows "\<exists>env'. samplerRun (map AnimationFrame ts) (m, env) =
                  (m\<lparr>frameCount := frameCount m + length ts\<rparr>, env') \<and> rafQueue env' \<noteq> []"
  using assms
proof (induction ts arbitrary: m env)
  case Nil
  then show ?case by simp
next
  case (Cons t ts)
  let ?m = "m\<lparr>frameCount := frameCount m + 1\<rparr>"
  let ?env = "env\<lparr>rafQueue := tl (rafQueue env) @ [MeasureFPS]\<rparr>"
  have step: "samplerStep (AnimationFrame t) (m, env) = (?m, ?env)"
    using Cons.prems by (simp add: samplerStep_frame_armed measureFPS_quiet del: samplerStep.simps)
  have "\<forall>t\<in>set ts. t - lastTime ?m < 1000" "rafQueue ?env \<noteq> []"
    using Cons.prems by simp_all
  from Cons.IH [OF this] obtain env' where
    "samplerRun (map AnimationFrame ts) (?m, ?env) =
       (?m\<lparr>frameCount := frameCount ?m + length ts\<rparr>, env')" "rafQueue env' \<noteq> []"
    by blast
  then show ?case by (simp add: step del: samplerStep.simps)
qed

lemma uniformFrames_split:
  assumes "0 < n"
  shows "uniformFrames a n =
         map AnimationFrame (map (\<lambda>k. a + 1000 * real k / real n) [1..<n]) @ [AnimationFrame (a + 1000)]"
  using assms by (simp add: uniformFrames_def)

lemma Math_round_real: "Math_round (real n) = int n"
proof -
  have "\<lfloor>real n + 1 / 2\<rfloor> = int n" by linarith
  then show ?thesis by (simp add: Math_round_def)
qed

lemma Math_round_of_nat: "Math_round (real n * 1000 / 1000) = int n"
  by (simp add: Math_round_real)

text \<open>
  Claim C4. Let the frame counter be 0 at the report anchor \<open>lastTime\<close>, let the frame
  loop be armed, and let \<open>n\<close> frames (\<open>n\<close> at least 1) arrive evenly over the 1000 ms
  that follow. Then exactly one sample is appended to the FPS series (after the oldest
  entry is dropped from a series of 60); it is \<open>round(n * 1000 / 1000)\<close>, which is
  \<open>n\<close>; the frame counter is 0 again and the anchor has moved to the time of the last
  frame.
\<close>

theorem uniform_second_records_frame_count:
  assumes "0 < n" and "frameCount m = 0" and "rafQueue env \<noteq> []"
  shows "fps (metrics (fst (samplerRun (uniformFrames (lastTime m) n) (m, env)))) =
           (if 60 \<le> length (fps (metrics m)) then tl (fps (metrics m)) else fps (metrics m))
           @ [Math_round (real n * 1000 / 1000)]
       \<and> Math_round (real n * 1000 / 1000) = int n
       \<and> frameCount (fst (samplerRun (uniformFrames (lastTime m) n) (m, env))) = 0
       \<and> lastTime (fst (samplerRun (uniformFrames (lastTime m) n) (m, env))) = lastTime m + 1000"
proof -
  let ?ts = "map (\<lambda>k. lastTime m + 1000 * real k / real n) [1..<n]"
  have quiet: "\<forall>t\<in>set ?ts. t - lastTime m < 1000"
    using assms(1) by (auto simp: divide_less_eq)
  from samplerRun_quiet [OF quiet assms(3)] obtain env' where
    run: "samplerRun (map AnimationFrame ?ts) (m, env) = (m\<lparr>frameCount := frameCount m + length ?ts\<rparr>, env')"
    and armed: "rafQueue env' \<noteq> []"
    by blast
  let ?m = "m\<lparr>frameCount := frameCount m + length ?ts\<rparr>"
  have cnt: "frameCount ?m + 1 = n" using assms(1,2) by simp
  have last: "samplerRun (uniformFrames (lastTime m) n) (m, env) =
              measureFPS (lastTime m + 1000) (?m, env'\<lparr>rafQueue := tl (rafQueue env')\<rparr>)"
    unfolding uniformFrames_split [OF assms(1)] samplerRun_append run
    by (simp add: samplerStep_frame_armed [OF armed] del: samplerStep.simps)
  have rep: "fst (measureFPS (lastTime m + 1000) (?m, env'\<lparr>rafQueue := tl (rafQueue env')\<rparr>)) =
         ?m\<lparr>metrics := (metrics ?m)\<lparr>fps := pushShift 60 (fps (metrics ?m))
                (Math_round ((real (frameCount ?m + 1) * 1000) / (lastTime m + 1000 - lastTime ?m)))\<rparr>,
           frameCount := 0, lastTime := lastTime m + 1000\<rparr>"
    by (rule measureFPS_report) simp
  have ps: "pushShift 60 xs x = (if 60 \<le> length xs then tl xs else xs) @ [x]" for xs :: "int list" and x
    by (cases xs) (simp_all add: pushShift_def)
  show ?thesis
    unfolding last rep cnt
    by (simp add: ps Math_round_real)
qed

theorem uniform_second_records_frame_count_witness:
  "fps (metrics (fst (samplerRun (uniformFrames 0 30) (startedSampler None 0 False 5)))) = [30]
   \<and> frameCount (fst (samplerRun (uniformFrames 0 30) (startedSampler None 0 False 5))) = 0
   \<and> lastTime (fst (samplerRun (uniformFrames 0 30) (startedSampler None 0 False 5))) = 1000"
proof -
  let ?S = "startedSampler None 0 False 5"
  have h: "(0::nat) < 30" "frameCount (fst ?S) = 0" "rafQueue (snd ?S) \<noteq> []" "lastTime (fst ?S) = 0"
    "fps (metrics (fst ?S)) = []"
    by (simp_all add: startedSampler_def pm_init_def new_GamePerformanceMonitor_def idleEnv_def
        startFPSMonitoring_def Let_def)
  show ?thesis
    using uniform_second_records_frame_count [OF h(1) h(2) h(3)] h(4) h(5) by simp
qed

lemma measureFPS_env:
  "rafQueue (snd (measureFPS t s)) \<noteq> []"
  "intervalTimers (snd (measureFPS t s)) = intervalTimers (snd s)"
  by (simp_all add: measureFPS_def Let_def)

lemma samplerStep_running:
  assumes "loopsRunning hm s"
  shows "loopsRunning hm (samplerStep ev s)"
proof (cases s)
  case (Pair m env)
  show ?thesis
  proof (cases ev)
    case (AnimationFrame t)
    then show ?thesis
      using assms Pair
      by (simp add: loopsRunning_def samplerStep_frame_armed measureFPS_env del: samplerStep.simps)
  next
    case (IntervalFired r)
    then show ?thesis using assms Pair by (auto simp: loopsRunning_def split: list.splits)
  qed
qed

lemma samplerRun_running:
  "loopsRunning hm s \<Longrightarrow> loopsRunning hm (samplerRun evs s)"
  by (induction evs arbitrary: s) (simp_all add: samplerStep_running)

lemma startedSampler_running: "loopsRunning hm (startedSampler g t0 hm t1)"
  by (simp add: loopsRunning_def startedSampler_def pm_init_def new_GamePerformanceMonitor_def
      idleEnv_def startFPSMonitoring_def startMemoryMonitoring_def Let_def)

lemma frame_step_series:
  assumes "rafQueue (snd s) \<noteq> []" and "length (fpsSeries s) \<le> 60"
  shows "fpsSeries (samplerStep (AnimationFrame t) s) =
           (if 1000 \<le> t - lastTime (fst s)
            then drop (Suc (length (fpsSeries s)) - 60)
                   (fpsSeries s @ [Math_round ((real (frameCount (fst s) + 1) * 1000) / (t - lastTime (fst s)))])
            else fpsSeries s)"
    and "memorySeries (samplerStep (AnimationFrame t) s) = memorySeries s"
proof -
  obtain m env where s: "s = (m, env)" by (cases s)
  have e: "samplerStep (AnimationFrame t) s = measureFPS t (m, env\<lparr>rafQueue := tl (rafQueue env)\<rparr>)"
    using assms(1) unfolding s by (simp add: samplerStep_frame_armed del: samplerStep.simps)
  show "fpsSeries (samplerStep (AnimationFrame t) s) =
           (if 1000 \<le> t - lastTime (fst s)
            then drop (Suc (length (fpsSeries s)) - 60)
                   (fpsSeries s @ [Math_round ((real (frameCount (fst s) + 1) * 1000) / (t - lastTime (fst s)))])
            else fpsSeries s)"
    using assms(2) unfolding e fpsSeries_def measureFPS_fps_eq
    by (simp add: s pushShift_drop)
  show "memorySeries (samplerStep (AnimationFrame t) s) = memorySeries s"
    unfolding e memorySeries_def measureFPS_memory by (simp add: s)
qed

lemma interval_step_series:
  assumes "length (memorySeries s) \<le> 60"
  shows "fpsSeries (samplerStep (IntervalFired r) s) = fpsSeries s"
    and "memorySeries (samplerStep (IntervalFired r) s) =
           (case r of
              None \<Rightarrow> memorySeries s
            | Some snapshot \<Rightarrow>
                if intervalTimers (snd s) \<noteq> []
                then drop (Suc (length (memorySeries s)) - 60) (memorySeries s @ [snapshot])
                else memorySeries s)"
proof -
  obtain m env where s: "s = (m, env)" by (cases s)
  show "fpsSeries (samplerStep (IntervalFired r) s) = fpsSeries s"
    by (simp add: s fpsSeries_def memoryProbe_fps split: list.splits)
  show "memorySeries (samplerStep (IntervalFired r) s) =
           (case r of
              None \<Rightarrow> memorySeries s
            | Some snapshot \<Rightarrow>
                if intervalTimers (snd s) \<noteq> []
                then drop (Suc (length (memorySeries s)) - 60) (memorySeries s @ [snapshot])
                else memorySeries s)"
    using assms
    by (simp add: s memorySeries_def memoryProbe_memory_eq pushShift_drop split: list.splits option.splits)
qed

text \<open>
  Claim C2. Take a monitor constructed and initialised on a page where nothing is
  registered yet, and let any sequence of animation frames and interval firings reach it.
  Then the FPS series and the memory series each hold at most 60 entries, and the next
  event does exactly this. An animation frame that comes 1000 ms or more after the anchor
  appends its sample to the FPS series, and one that comes earlier leaves the series as it
  is; neither touches the memory series. An interval firing whose reading succeeds appends
  the snapshot to the memory series when the page has \<open>performance.memory\<close> (no
  interval is registered otherwise), and one whose reading fails leaves the series as it
  is; neither touches the FPS series. Whenever an entry is appended to a series that holds
  60 entries, the first (oldest) entry is dropped, and only that one; the other entries
  keep their order and the new entry comes last.
\<close>

theorem sampler_series_bounded_fifo:
  "length (fpsSeries (samplerRun evs (startedSampler g t0 hm t1))) \<le> 60
 \<and> length (memorySeries (samplerRun evs (startedSampler g t0 hm t1))) \<le> 60
 \<and> (\<forall>t. fpsSeries (samplerStep (AnimationFrame t) (samplerRun evs (startedSampler g t0 hm t1))) =
         (if 1000 \<le> t - lastTime (fst (samplerRun evs (startedSampler g t0 hm t1)))
          then drop (Suc (length (fpsSeries (samplerRun evs (startedSampler g t0 hm t1)))) - 60)
                 (fpsSeries (samplerRun evs (startedSampler g t0 hm t1))
                  @ [Math_round
                       ((real (frameCount (fst (samplerRun evs (startedSampler g t0 hm t1))) + 1) * 1000)
                        / (t - lastTime (fst (samplerRun evs (startedSampler g t0 hm t1)))))])
          else fpsSeries (samplerRun evs (startedSampler g t0 hm t1))))
 \<and> (\<forall>t. memorySeries (samplerStep (AnimationFrame t) (samplerRun evs (startedSampler g t0 hm t1))) =
         memorySeries (samplerRun evs (startedSampler g t0 hm t1)))
 \<and> (\<forall>r. fpsSeries (samplerStep (IntervalFired r) (samplerRun evs (startedSampler g t0 hm t1))) =
         fpsSeries (samplerRun evs (startedSampler g t0 hm t1)))
 \<and> (\<forall>snapshot.
       memorySeries (samplerStep (IntervalFired (Some snapshot)) (samplerRun evs (startedSampler g t0 hm t1))) =
         (if hm
          then drop (Suc (length (memorySeries (samplerRun evs (startedSampler g t0 hm t1)))) - 60)
                 (memorySeries (samplerRun evs (startedSampler g t0 hm t1)) @ [snapshot])
          else memorySeries (samplerRun evs (startedSampler g t0 hm t1))))
 \<and> memorySeries (samplerStep (IntervalFired None) (samplerRun evs (startedSampler g t0 hm t1))) =
       memorySeries (samplerRun evs (startedSampler g t0 hm t1))"
proof -
  let ?s = "samplerRun evs (startedSampler g t0 hm t1)"
  have b: "seriesBounded ?s"
    by (rule samplerRun_bounded) (rule startedSampler_bounded)
  then have lf: "length (fpsSeries ?s) \<le> 60" and lm: "length (memorySeries ?s) \<le> 60"
    by (simp_all add: seriesBounded_def fpsSeries_def memorySeries_def)
  have "loopsRunning hm ?s"
    by (rule samplerRun_running) (rule startedSampler_running)
  then have armed: "rafQueue (snd ?s) \<noteq> []" and timers: "(intervalTimers (snd ?s) \<noteq> []) = hm"
    by (simp_all add: loopsRunning_def)
  note fr = frame_step_series [OF armed lf]
  note iv = interval_step_series [OF lm]
  have m1: "memorySeries (samplerStep (IntervalFired (Some x)) ?s) =
         (if hm then drop (Suc (length (memorySeries ?s)) - 60) (memorySeries ?s @ [x])
          else memorySeries ?s)" for x
    using iv(2) [of "Some x"] timers by simp
  have m0: "memorySeries (samplerStep (IntervalFired None) ?s) = memorySeries ?s"
    using iv(2) [of None] by simp
  from lf lm fr iv(1) m1 m0 show ?thesis by blast
qed

lemma suggestions_distinct:
  "lowFPSSuggestion \<noteq> veryLowFPSSuggestion"
  "lowFPSSuggestion \<noteq> highMemorySuggestion"
  "veryLowFPSSuggestion \<noteq> highMemorySuggestion"
  by (simp_all add: lowFPSSuggestion_def veryLowFPSSuggestion_def highMemorySuggestion_def)

lemma low_in_suggestions:
  "lowFPSSuggestion \<in> set (getPerformanceSuggestions m) \<longleftrightarrow> averageFPS (getPerformanceReport m) < 30"
  using suggestions_distinct
  by (auto simp: getPerformanceSuggestions_def Let_def split: option.splits if_splits)

lemma veryLow_in_suggestions:
  "veryLowFPSSuggestion \<in> set (getPerformanceSuggestions m) \<longleftrightarrow> averageFPS (getPerformanceReport m) < 20"
  using suggestions_distinct
  by (auto simp: getPerformanceSuggestions_def Let_def split: option.splits if_splits)

text \<open>
  Claim C3. For every monitor, \<open>getPerformanceSuggestions\<close> holds the quality-reduction
  suggestion exactly when the \<open>averageFPS\<close> of the report is 29 or below, holds both
  that suggestion and the stronger warning exactly when it is 19 or below, and holds
  neither of the two exactly when it is 30 or above.
\<close>

theorem suggestions_follow_mean_fps:
  "(lowFPSSuggestion \<in> set (getPerformanceSuggestions m)) = (averageFPS (getPerformanceReport m) \<le> 29)
 \<and> (lowFPSSuggestion \<in> set (getPerformanceSuggestions m)
      \<and> veryLowFPSSuggestion \<in> set (getPerformanceSuggestions m))
     = (averageFPS (getPerformanceReport m) \<le> 19)
 \<and> (lowFPSSuggestion \<notin> set (getPerformanceSuggestions m)
      \<and> veryLowFPSSuggestion \<notin> set (getPerformanceSuggestions m))
     = (30 \<le> averageFPS (getPerformanceReport m))"
  unfolding low_in_suggestions veryLow_in_suggestions by auto

text \<open>
  Claim C9. For a monitor whose FPS series is empty, the report gives \<open>currentFPS\<close>,
  \<open>averageFPS\<close>, \<open>minFPS\<close> and \<open>maxFPS\<close> as 0, and the suggestions hold both
  low-FPS suggestions.
\<close>

theorem empty_series_reports_zero:
  assumes "fps (metrics m) = []"
  shows "currentFPS (getPerformanceReport m) = 0
       \<and> averageFPS (getPerformanceReport m) = 0
       \<and> minFPS (getPerformanceReport m) = 0
       \<and> maxFPS (getPerformanceReport m) = 0
       \<and> lowFPSSuggestion \<in> set (getPerformanceSuggestions m)
       \<and> veryLowFPSSuggestion \<in> set (getPerformanceSuggestions m)"
proof -
  have r: "currentFPS (getPerformanceReport m) = 0" "averageFPS (getPerformanceReport m) = 0"
    "minFPS (getPerformanceReport m) = 0" "maxFPS (getPerformanceReport m) = 0"
    using assms by (simp_all add: getPerformanceReport_def Let_def)
  then show ?thesis by (simp add: low_in_suggestions veryLow_in_suggestions)
qed

theorem empty_series_reports_zero_witness:
  "fps (metrics (new_GamePerformanceMonitor None 0)) = []
   \<and> averageFPS (getPerformanceReport (new_GamePerformanceMonitor None 0)) = 0
   \<and> getPerformanceSuggestions (new_GamePerformanceMonitor None 0)
       = [lowFPSSuggestion, veryLowFPSSuggestion]"
proof -
  have h: "fps (metrics (new_GamePerformanceMonitor None 0)) = []"
    by (simp add: new_GamePerformanceMonitor_def)
  have s: "getPerformanceSuggestions (new_GamePerformanceMonitor None 0)
       = [lowFPSSuggestion, veryLowFPSSuggestion]"
    by (simp add: getPerformanceSuggestions_def getPerformanceReport_def Let_def
        new_GamePerformanceMonitor_def)
  show ?thesis using empty_series_reports_zero [OF h] h s by simp
qed

section \<open>Properties of init\<close>

lemma js_eq_iff [simp]: "js a = js b \<longleftrightarrow> a = b"
  unfolding js_def by (simp add: inj_map_eq_map inj_on_def)

lemma js_Nil [simp]: "js s = [] \<longleftrightarrow> s = []" "[] = js s \<longleftrightarrow> s = []"
  by (auto simp: js_def)

lemma eh_init_flag: "eh_initialized (fst (eh_init s))"
  by (simp add: eh_init_def Let_def)

lemma eh_init_done: "eh_initialized (fst s) \<Longrightarrow> eh_init s = s"
  by (simp add: eh_init_def)

lemma ga_init_flag: "ga_initialized (fst (ga_init s))"
  by (simp add: ga_init_def Let_def)

lemma ga_init_done: "ga_initialized (fst s) \<Longrightarrow> ga_init s = s"
  by (simp add: ga_init_def)

lemma pm_init_flag: "pm_initialized (fst (pm_init t s))"
  by (simp add: pm_init_def Let_def)

lemma pm_init_done: "pm_initialized (fst s) \<Longrightarrow> pm_init t s = s"
  by (simp add: pm_init_def)

text \<open>
  Claim C8. For each of the three components, \<open>init\<close> sets the instance's
  \<open>initialized\<close> flag, and a call of \<open>init\<close> on an instance that has been initialised
  returns at its guard: the instance and the page are as the first call left them, with no
  further listener, wrapper, element, frame request or interval.
\<close>

theorem init_twice_is_init_once:
  "eh_init (eh_init e) = eh_init e \<and> eh_initialized (fst (eh_init e))
 \<and> ga_init (ga_init a) = ga_init a \<and> ga_initialized (fst (ga_init a))
 \<and> pm_init t2 (pm_init t1 m) = pm_init t1 m \<and> pm_initialized (fst (pm_init t1 m))"
  by (simp add: eh_init_flag eh_init_done ga_init_flag ga_init_done pm_init_flag pm_init_done)

section \<open>Properties of GameAccessibility: the buttons\<close>

lemma buttonLabel_nonempty: "buttonLabel \<noteq> []"
  by (simp add: buttonLabel_def)

lemma getButtonLabel_priority: "getButtonLabel b = Some (labelByPriority b)"
  by (simp add: getButtonLabel_def labelByPriority_def lor_def truthy_def getAttribute_def
      attributeOrEmpty_def elemId_def buttonLabel_nonempty split: option.splits)

lemma labelByPriority_nonempty: "labelByPriority b \<noteq> []"
  by (simp add: labelByPriority_def buttonLabel_nonempty)

lemmas dom_ops = setAttribute_def updateNode_def classList_add_def createElement_def
  setTextContent_def appendChild_head_def appendChild_body_def hasAttribute_def
  classList_contains_def getAttribute_def setCssText_def setClassName_def setInnerHTML_def

lemma each_nodes:
  assumes "j < length (nodes p)"
  shows "nodes (addButtonAccessibility_each j p) =
         (nodes p)[j := annotateButton (nodes p ! j)]
         @ (if unmarked p j then [focusStyleElement] else [])"
  using assms
  by (simp add: addButtonAccessibility_each_def Let_def dom_ops annotateButton_def unmarked_def
      focusStyleElement_def getButtonLabel_priority toString_def list_update_append
      split: option.splits)

lemma each_head:
  assumes "j < length (nodes p)"
  shows "headContent (addButtonAccessibility_each j p) =
         headContent p @ (if unmarked p j then [length (nodes p)] else [])"
  using assms
  by (simp add: addButtonAccessibility_each_def Let_def dom_ops unmarked_def split: option.splits)

lemma each_frame:
  "rootNode (addButtonAccessibility_each j p) = rootNode p"
  "headNode (addButtonAccessibility_each j p) = headNode p"
  "bodyNode (addButtonAccessibility_each j p) = bodyNode p"
  "bodyContent (addButtonAccessibility_each j p) = bodyContent p"
  by (simp_all add: addButtonAccessibility_each_def Let_def dom_ops split: option.splits prod.splits)


lemma each_length:
  assumes "j < length (nodes p)"
  shows "length (nodes (addButtonAccessibility_each j p)) =
         length (nodes p) + (if unmarked p j then 1 else 0)"
  by (simp add: each_nodes [OF assms])

lemma each_other:
  assumes "j < length (nodes p)" and "k < length (nodes p)" and "k \<noteq> j"
  shows "nodes (addButtonAccessibility_each j p) ! k = nodes p ! k"
  using assms by (simp add: each_nodes nth_append)

lemma each_self:
  assumes "j < length (nodes p)"
  shows "nodes (addButtonAccessibility_each j p) ! j = annotateButton (nodes p ! j)"
  using assms by (simp add: each_nodes nth_append)

lemma each_new:
  assumes "j < length (nodes p)" and "unmarked p j"
  shows "nodes (addButtonAccessibility_each j p) ! length (nodes p) = focusStyleElement"
  using assms by (simp add: each_nodes nth_append)

lemma sweep_invariant:
  assumes "distinct bs" and "\<forall>j\<in>set bs. j < length (nodes p)"
  shows "length (nodes (fold addButtonAccessibility_each bs p)) =
           length (nodes p) + length (filter (unmarked p) bs)
       \<and> (\<forall>k<length (nodes p). nodes (fold addButtonAccessibility_each bs p) ! k =
             (if k \<in> set bs then annotateButton (nodes p ! k) else nodes p ! k))
       \<and> (\<forall>k. length (nodes p) \<le> k \<and> k < length (nodes (fold addButtonAccessibility_each bs p))
             \<longrightarrow> nodes (fold addButtonAccessibility_each bs p) ! k = focusStyleElement)
       \<and> headContent (fold addButtonAccessibility_each bs p) =
           headContent p @ [length (nodes p)..<length (nodes p) + length (filter (unmarked p) bs)]
       \<and> rootNode (fold addButtonAccessibility_each bs p) = rootNode p
       \<and> headNode (fold addButtonAccessibility_each bs p) = headNode p
       \<and> bodyNode (fold addButtonAccessibility_each bs p) = bodyNode p
       \<and> bodyContent (fold addButtonAccessibility_each bs p) = bodyContent p"
  using assms
proof (induction bs arbitrary: p)
  case Nil
  then show ?case by auto
next
  case (Cons j bs)
  let ?p = "addButtonAccessibility_each j p"
  let ?q = "fold addButtonAccessibility_each bs ?p"
  have j: "j < length (nodes p)" using Cons.prems by simp
  have len: "length (nodes ?p) = length (nodes p) + (if unmarked p j then 1 else 0)"
    by (rule each_length [OF j])
  have d: "distinct bs" and nj: "j \<notin> set bs" using Cons.prems by simp_all
  have b: "\<forall>i\<in>set bs. i < length (nodes ?p)" using Cons.prems len by auto
  have same: "nodes ?p ! i = nodes p ! i" if "i \<in> set bs" for i
    using that Cons.prems nj by (intro each_other [OF j]) auto
  have um: "filter (unmarked ?p) bs = filter (unmarked p) bs"
    by (rule filter_cong) (simp_all add: unmarked_def same)
  note IH = Cons.IH [OF d b, unfolded um]
  have L: "length (nodes ?q) = length (nodes p) + length (filter (unmarked p) (j # bs))"
    using IH len by simp
  have A: "nodes ?q ! k = (if k \<in> set (j # bs) then annotateButton (nodes p ! k) else nodes p ! k)"
    if k: "k < length (nodes p)" for k
  proof -
    have k': "k < length (nodes ?p)" using k len by simp
    with IH have e: "nodes ?q ! k = (if k \<in> set bs then annotateButton (nodes ?p ! k) else nodes ?p ! k)"
      by blast
    show ?thesis
    proof (cases "k = j")
      case True
      then show ?thesis using e nj by (simp add: each_self [OF j])
    next
      case False
      then have "nodes ?p ! k = nodes p ! k" using k j by (simp add: each_other)
      then show ?thesis using e False by simp
    qed
  qed
  have N: "nodes ?q ! k = focusStyleElement"
    if k: "length (nodes p) \<le> k" "k < length (nodes ?q)" for k
  proof (cases "k < length (nodes ?p)")
    case True
    then have u: "unmarked p j" and keq: "k = length (nodes p)" using len k(1) by (auto split: if_splits)
    from True IH have "nodes ?q ! k = (if k \<in> set bs then annotateButton (nodes ?p ! k) else nodes ?p ! k)"
      by blast
    moreover have "k \<notin> set bs" using Cons.prems k(1) by auto
    ultimately show ?thesis using u keq by (simp add: each_new [OF j])
  next
    case False
    then show ?thesis using IH k(2) by simp
  qed
  have H: "headContent ?q =
           headContent p @ [length (nodes p)..<length (nodes p) + length (filter (unmarked p) (j # bs))]"
  proof (cases "unmarked p j")
    case True
    have "[length (nodes p)..<length (nodes p) + Suc n] =
          length (nodes p) # [Suc (length (nodes p))..<Suc (length (nodes p)) + n]" for n
      by (simp add: upt_conv_Cons)
    then show ?thesis using IH True len by (simp add: each_head [OF j])
  next
    case False
    then show ?thesis using IH len by (simp add: each_head [OF j])
  qed
  have F: "rootNode ?q = rootNode p" "headNode ?q = headNode p" "bodyNode ?q = bodyNode p"
    "bodyContent ?q = bodyContent p"
    using IH by (simp_all add: each_frame)
  from L A N H F show ?case by simp
qed

lemma buttons_in_store:
  assumes "wfPage p" and "b \<in> set (buttonsOf p)"
  shows "b < length (nodes p)"
  using assms by (auto simp: wfPage_def buttonsOf_def querySelectorAll_def list_all_iff)

lemma buttons_distinct: "wfPage p \<Longrightarrow> distinct (buttonsOf p)"
  by (simp add: wfPage_def buttonsOf_def querySelectorAll_def)

lemma head_in_store:
  assumes "wfPage p" and "i \<in> set (headContent p)"
  shows "i < length (nodes p)"
  using assms by (auto simp: wfPage_def treeOrder_def list_all_iff)

lemma sweep_facts:
  assumes "wfPage p"
  shows "length (nodes (addButtonAccessibility p)) =
           length (nodes p) + length (filter (unmarked p) (buttonsOf p))"
    and "\<And>k. k < length (nodes p) \<Longrightarrow> nodes (addButtonAccessibility p) ! k =
             (if k \<in> set (buttonsOf p) then annotateButton (nodes p ! k) else nodes p ! k)"
    and "\<And>k. length (nodes p) \<le> k \<Longrightarrow> k < length (nodes (addButtonAccessibility p)) \<Longrightarrow>
             nodes (addButtonAccessibility p) ! k = focusStyleElement"
    and "headContent (addButtonAccessibility p) =
           headContent p @ [length (nodes p)..<length (nodes p) + length (filter (unmarked p) (buttonsOf p))]"
proof -
  have d: "distinct (buttonsOf p)" by (rule buttons_distinct [OF assms])
  have b: "\<forall>j\<in>set (buttonsOf p). j < length (nodes p)"
    using buttons_in_store [OF assms] by blast
  note inv = sweep_invariant [OF d b, folded addButtonAccessibility_def [unfolded buttonsOf_def [symmetric]]]
  show "length (nodes (addButtonAccessibility p)) =
           length (nodes p) + length (filter (unmarked p) (buttonsOf p))"
    using inv by blast
  show "\<And>k. k < length (nodes p) \<Longrightarrow> nodes (addButtonAccessibility p) ! k =
             (if k \<in> set (buttonsOf p) then annotateButton (nodes p ! k) else nodes p ! k)"
    using inv by blast
  show "\<And>k. length (nodes p) \<le> k \<Longrightarrow> k < length (nodes (addButtonAccessibility p)) \<Longrightarrow>
             nodes (addButtonAccessibility p) ! k = focusStyleElement"
    using inv by blast
  show "headContent (addButtonAccessibility p) =
           headContent p @ [length (nodes p)..<length (nodes p) + length (filter (unmarked p) (buttonsOf p))]"
    using inv by blast
qed

lemma annotateButton_keeps:
  "tagName (annotateButton e) = tagName e"
  "textContent (annotateButton e) = textContent e"
  by (simp_all add: annotateButton_def)

lemma annotateButton_marked:
  "js ''has-focus-style'' \<in> set (classList (annotateButton e))"
  by (simp add: annotateButton_def)

lemma annotateButton_label:
  "attributes (annotateButton e) (js ''aria-label'') =
     (if attributes e (js ''aria-label'') = None then Some (labelByPriority e)
      else attributes e (js ''aria-label''))"
  by (simp add: annotateButton_def)

text \<open>
  Claim C5, as amended. On a well-formed page, \<open>addButtonAccessibility\<close> appends one
  style element with the focus rule to \<open>head\<close> for each button that does not carry the
  marker class \<open>has-focus-style\<close> when it is visited, and none for a button that
  carries it; after the sweep every button carries the marker class.
\<close>

theorem focus_rule_once_per_unmarked_button:
  assumes "wfPage p"
  shows "length (focusStylesOf (addButtonAccessibility p)) =
           length (focusStylesOf p) + length (filter (unmarked p) (buttonsOf p))
       \<and> filter (unmarked (addButtonAccessibility p)) (buttonsOf p) = []"
proof -
  let ?q = "addButtonAccessibility p"
  let ?n = "length (nodes p)"
  let ?m = "length (filter (unmarked p) (buttonsOf p))"
  let ?P = "\<lambda>r i. tagName (nodes r ! i) = js ''style'' \<and> textContent (nodes r ! i) = focusStyleText"
  note f = sweep_facts [OF assms]
  have old: "filter (?P ?q) (headContent p) = filter (?P p) (headContent p)"
  proof -
    have "?P ?q i = ?P p i" if "i \<in> set (headContent p)" for i
    proof -
      have "i < ?n" using assms that by (rule head_in_store)
      then show ?thesis by (simp add: f(2) annotateButton_keeps)
    qed
    then show ?thesis by (auto intro: filter_cong)
  qed
  have new: "filter (?P ?q) [?n..<?n + ?m] = [?n..<?n + ?m]"
  proof -
    have "?P ?q i" if "i \<in> set [?n..<?n + ?m]" for i
    proof -
      have "?n \<le> i" "i < length (nodes ?q)" using that by (simp_all add: f(1))
      then have "nodes ?q ! i = focusStyleElement" by (rule f(3))
      then show ?thesis by (simp add: focusStyleElement_def)
    qed
    then show ?thesis by (simp add: filter_id_conv)
  qed
  have count: "length (focusStylesOf ?q) = length (focusStylesOf p) + ?m"
    by (simp add: focusStylesOf_def f(4) old new)
  have marked: "filter (unmarked ?q) (buttonsOf p) = []"
  proof -
    have "\<not> unmarked ?q b" if "b \<in> set (buttonsOf p)" for b
    proof -
      have "b < ?n" using assms that by (rule buttons_in_store)
      then have "nodes ?q ! b = annotateButton (nodes p ! b)" using that by (simp add: f(2))
      then show ?thesis by (simp add: unmarked_def classList_contains_def annotateButton_marked)
    qed
    then show ?thesis by (simp add: filter_empty_conv)
  qed
  from count marked show ?thesis by simp
qed

lemma wfPage_pageOf: "wfPage (pageOf es)"
  by (auto simp: wfPage_def pageOf_def treeOrder_def list_all_iff)

lemma buttonsOf_two:
  "buttonsOf (pageOf [plainElement ''button'', plainElement ''button'']) = [3, 4]"
  by (simp add: buttonsOf_def querySelectorAll_def pageOf_def treeOrder_def plainElement_def
      upt_conv_Cons)

theorem focus_rule_once_per_unmarked_button_witness:
  "wfPage (pageOf [plainElement ''button'', plainElement ''button''])
   \<and> length (focusStylesOf (addButtonAccessibility (pageOf [plainElement ''button'', plainElement ''button'']))) = 2"
proof -
  let ?p = "pageOf [plainElement ''button'', plainElement ''button'']"
  have u: "length (filter (unmarked ?p) (buttonsOf ?p)) = 2"
    unfolding buttonsOf_two
    by (simp add: unmarked_def classList_contains_def pageOf_def plainElement_def)
  have z: "length (focusStylesOf ?p) = 0"
    by (simp add: focusStylesOf_def pageOf_def)
  show ?thesis
    using focus_rule_once_per_unmarked_button [OF wfPage_pageOf, of "[plainElement ''button'', plainElement ''button'']"]
    by (simp add: wfPage_pageOf u z)
qed

text \<open>
  Claim C7, as amended. For every button of a well-formed page, \<open>getButtonLabel\<close>
  returns the label by priority: the label attribute, then the visible text, then the
  title attribute, then the identifier, then the generic label, the first of them that is
  not empty; this label is never empty. The sweep gives a button that has no label
  attribute the label by priority, and leaves a button that has a label attribute, also
  an empty one, with the attribute it has; a button with no label attribute, no visible
  text, no title and no identifier gets the generic label, which is not empty.
\<close>

theorem button_label_follows_priority:
  assumes "wfPage p" and "b \<in> set (buttonsOf p)"
  shows "getButtonLabel (nodes p ! b) = Some (labelByPriority (nodes p ! b))
       \<and> labelByPriority (nodes p ! b) \<noteq> []
       \<and> getAttribute (nodes (addButtonAccessibility p) ! b) (js ''aria-label'') =
           (if hasAttribute (nodes p ! b) (js ''aria-label'')
            then getAttribute (nodes p ! b) (js ''aria-label'')
            else Some (labelByPriority (nodes p ! b)))
       \<and> (\<not> hasAttribute (nodes p ! b) (js ''aria-label'')
            \<and> trim (textContent (nodes p ! b)) = []
            \<and> attributeOrEmpty (nodes p ! b) (js ''title'') = []
            \<and> attributeOrEmpty (nodes p ! b) (js ''id'') = []
          \<longrightarrow> getAttribute (nodes (addButtonAccessibility p) ! b) (js ''aria-label'') = Some buttonLabel
              \<and> buttonLabel \<noteq> [])"
proof -
  have "b < length (nodes p)" using assms by (rule buttons_in_store)
  then have "nodes (addButtonAccessibility p) ! b = annotateButton (nodes p ! b)"
    using assms(2) by (simp add: sweep_facts(2) [OF assms(1)])
  then show ?thesis
    by (auto simp: getButtonLabel_priority labelByPriority_nonempty getAttribute_def
        hasAttribute_def annotateButton_label labelByPriority_def attributeOrEmpty_def
        buttonLabel_nonempty)
qed

theorem button_label_follows_priority_witness:
  "wfPage (pageOf [plainElement ''button''])
   \<and> 3 \<in> set (buttonsOf (pageOf [plainElement ''button'']))
   \<and> getAttribute (nodes (addButtonAccessibility (pageOf [plainElement ''button''])) ! 3) (js ''aria-label'')
       = Some buttonLabel"
proof -
  let ?p = "pageOf [plainElement ''button'']"
  have b: "3 \<in> set (buttonsOf ?p)"
    by (simp add: buttonsOf_def querySelectorAll_def pageOf_def treeOrder_def plainElement_def)
  have e: "nodes ?p ! 3 = plainElement ''button''"
    by (simp add: pageOf_def)
  have l: "\<not> hasAttribute (plainElement ''button'') (js ''aria-label'')"
    "trim (textContent (plainElement ''button'')) = []"
    "attributeOrEmpty (plainElement ''button'') (js ''title'') = []"
    "attributeOrEmpty (plainElement ''button'') (js ''id'') = []"
    by (simp_all add: hasAttribute_def plainElement_def trim_def attributeOrEmpty_def)
  from button_label_follows_priority [OF wfPage_pageOf b]
  have "getAttribute (nodes (addButtonAccessibility ?p) ! 3) (js ''aria-label'') = Some buttonLabel"
    unfolding e using l by blast
  then show ?thesis using b by (simp add: wfPage_pageOf)
qed

lemma empty_label_query:
  "querySelectorAll [ByTag (js ''button'')] (pageOf [emptyLabelButton]) = [3]"
  by (simp add: querySelectorAll_def pageOf_def treeOrder_def plainElement_def emptyLabelButton_def)

lemma trim_Play: "trim (js ''Play'') = js ''Play''"
  by (simp add: trim_def js_def isWhiteSpace_def)

text \<open>
  Claim C7, as stated, fails: the button \<open><button aria-label="">Play</button>\<close> has the
  label \<open>Play\<close> by priority, and after the sweep its label is still the empty string.
\<close>

theorem empty_label_attribute_survives_sweep:
  "3 \<in> set (buttonsOf (pageOf [emptyLabelButton]))
   \<and> labelByPriority (nodes (pageOf [emptyLabelButton]) ! 3) = js ''Play''
   \<and> getAttribute (nodes (addButtonAccessibility (pageOf [emptyLabelButton])) ! 3) (js ''aria-label'')
       = Some []"
proof -
  have b: "3 \<in> set (buttonsOf (pageOf [emptyLabelButton]))"
    by (simp add: buttonsOf_def empty_label_query)
  have l: "labelByPriority (nodes (pageOf [emptyLabelButton]) ! 3) = js ''Play''"
    by (simp add: pageOf_def labelByPriority_def emptyLabelButton_def plainElement_def
        attributeOrEmpty_def trim_Play)
  have s: "getAttribute (nodes (addButtonAccessibility (pageOf [emptyLabelButton])) ! 3) (js ''aria-label'')
       = Some []"
    unfolding addButtonAccessibility_def empty_label_query
    by (simp add: addButtonAccessibility_each_def Let_def dom_ops pageOf_def plainElement_def
        emptyLabelButton_def)
  from b l s show ?thesis by simp
qed

lemma two_buttons_query:
  "querySelectorAll [ByTag (js ''button'')] (pageOf [plainElement ''button'', plainElement ''button'']) = [3, 4]"
  using buttonsOf_two by (simp add: buttonsOf_def)

text \<open>
  Claim C5, as stated, fails: on a page with two buttons and no focus rule, the sweep of
  the buttons, and \<open>init\<close> as a whole, leave two style elements with the focus rule in
  \<open>head\<close>.
\<close>

theorem focus_rule_injected_twice:
  "length (focusStylesOf (pageOf [plainElement ''button'', plainElement ''button''])) = 0
   \<and> length (focusStylesOf (addButtonAccessibility
         (pageOf [plainElement ''button'', plainElement ''button'']))) = 2
   \<and> length (focusStylesOf (snd (ga_init (new_GameAccessibility,
         pageOf [plainElement ''button'', plainElement ''button''])))) = 2"
proof -
  have z: "length (focusStylesOf (pageOf [plainElement ''button'', plainElement ''button''])) = 0"
    by (simp add: focusStylesOf_def pageOf_def)
  have s: "length (focusStylesOf (addButtonAccessibility
         (pageOf [plainElement ''button'', plainElement ''button'']))) = 2"
    unfolding addButtonAccessibility_def two_buttons_query
    by (simp add: addButtonAccessibility_each_def Let_def dom_ops pageOf_def plainElement_def
        focusStylesOf_def)
  have i: "length (focusStylesOf (snd (ga_init (new_GameAccessibility,
         pageOf [plainElement ''button'', plainElement ''button''])))) = 2"
    unfolding ga_init_def new_GameAccessibility_def
    apply (simp add: Let_def del: fold_simps)
    unfolding addButtonAccessibility_def two_buttons_query
    apply (simp add: addButtonAccessibility_each_def Let_def dom_ops pageOf_def plainElement_def
        focusStylesOf_def addImageAccessibility_def querySelectorAll_def treeOrder_def
        addKeyboardNavigation_def addKeyboardShortcutsHelp_def detectHighContrastMode_def)
    done
  from z s i show ?thesis by simp
qed

section \<open>Properties of GameAccessibility: the live region\<close>

lemma find_append_cases:
  "find P (xs @ ys) = (case find P xs of None \<Rightarrow> find P ys | Some x \<Rightarrow> Some x)"
  by (induction xs) simp_all

lemma find_in_set: "find P xs = Some x \<Longrightarrow> x \<in> set xs"
  by (induction xs) (auto split: if_splits)

lemma find_same:
  assumes "\<And>x. x \<in> set xs \<Longrightarrow> P x = Q x"
  shows "find P xs = find Q xs"
  using assms by (induction xs) simp_all

lemma tree_in_store:
  assumes "wfPage p" and "i \<in> set (treeOrder p)"
  shows "i < length (nodes p)"
  using assms by (auto simp: wfPage_def list_all_iff)

lemma getElementById_same:
  assumes "treeOrder q = treeOrder p"
    and "\<And>i. i \<in> set (treeOrder p) \<Longrightarrow> attributes (nodes q ! i) = attributes (nodes p ! i)"
  shows "getElementById q ident = getElementById p ident"
  unfolding getElementById_def assms(1)
  by (rule find_same) (simp add: assms(2))

lemma setTextContent_fields:
  "nodes (setTextContent r v p) = (nodes p)[r := (nodes p ! r)\<lparr>textContent := v\<rparr>]"
  "treeOrder (setTextContent r v p) = treeOrder p"
  "timeouts (setTextContent r v p) = timeouts p"
  "clock (setTextContent r v p) = clock p"
  by (simp_all add: setTextContent_def updateNode_def treeOrder_def)

lemma setTextContent_node:
  "i < length (nodes p) \<Longrightarrow>
   nodes (setTextContent r v p) ! i =
     (if i = r then (nodes p ! i)\<lparr>textContent := v\<rparr> else nodes p ! i)"
  by (simp add: setTextContent_fields nth_list_update)

lemma textOnly_refl: "textOnly p p"
  by (simp add: textOnly_def)

lemma textOnly_trans: "textOnly p q \<Longrightarrow> textOnly q r \<Longrightarrow> textOnly p r"
  unfolding textOnly_def
  by (metis (no_types, lifting) element.surjective element.update_convs(5))

lemma textOnly_setTextContent: "textOnly p (setTextContent r v p)"
proof -
  have "nodes (setTextContent r v p) ! i =
        (nodes p ! i)\<lparr>textContent := textContent (nodes (setTextContent r v p) ! i)\<rparr>"
    if "i < length (nodes p)" for i
    using that by (cases "i = r") (simp_all add: setTextContent_fields)
  then show ?thesis by (simp add: textOnly_def setTextContent_fields(1)[THEN arg_cong, of length] setTextContent_fields(2))
qed

lemma textOnly_attributes:
  assumes "textOnly p q" and "i < length (nodes p)"
  shows "attributes (nodes q ! i) = attributes (nodes p ! i)"
    and "cssText (nodes q ! i) = cssText (nodes p ! i)"
proof -
  from assms have e: "nodes q ! i = (nodes p ! i)\<lparr>textContent := textContent (nodes q ! i)\<rparr>"
    by (simp add: textOnly_def)
  show "attributes (nodes q ! i) = attributes (nodes p ! i)" by (subst e) simp
  show "cssText (nodes q ! i) = cssText (nodes p ! i)" by (subst e) simp
qed

lemma textOnly_wf: "textOnly p q \<Longrightarrow> wfPage p \<Longrightarrow> wfPage q"
  by (simp add: textOnly_def wfPage_def)

lemma textOnly_region:
  assumes "textOnly p q" and "wfPage p"
  shows "liveRegionOf q = liveRegionOf p"
  unfolding liveRegionOf_def
proof (rule getElementById_same)
  show "treeOrder q = treeOrder p" using assms(1) by (simp add: textOnly_def)
  fix i assume "i \<in> set (treeOrder p)"
  then have "i < length (nodes p)" using assms(2) by (simp add: tree_in_store)
  then show "attributes (nodes q ! i) = attributes (nodes p ! i)"
    using assms(1) by (rule textOnly_attributes(1) [rotated])
qed

text \<open>Running callbacks.\<close>

lemma runTimeouts_facts:
  "textOnly p (fold (\<lambda>(t, callback). runTimeout callback) cbs p)
 \<and> timeouts (fold (\<lambda>(t, callback). runTimeout callback) cbs p) = timeouts p
 \<and> clock (fold (\<lambda>(t, callback). runTimeout callback) cbs p) = clock p"
proof (induction cbs arbitrary: p)
  case Nil
  show ?case by (simp add: textOnly_refl)
next
  case (Cons c cbs)
  obtain t r where c: "c = (t, ClearText r)"
    by (metis prod.exhaust timeoutCallback.exhaust)
  have "textOnly p (setTextContent r [] p)" by (rule textOnly_setTextContent)
  with Cons [of "setTextContent r [] p"] show ?case
    by (auto simp: c setTextContent_fields intro: textOnly_trans)
qed

lemma runTimeouts_cleared:
  assumes "(t, ClearText r) \<in> set cbs" and "r < length (nodes p)"
  shows "textContent (nodes (fold (\<lambda>(t, callback). runTimeout callback) cbs p) ! r) = []"
  using assms
proof (induction cbs arbitrary: p rule: rev_induct)
  case Nil
  then show ?case by simp
next
  case (snoc c cbs)
  let ?q = "fold (\<lambda>(t, callback). runTimeout callback) cbs p"
  obtain t' r' where c: "c = (t', ClearText r')"
    by (metis prod.exhaust timeoutCallback.exhaust)
  have len: "length (nodes ?q) = length (nodes p)"
    using runTimeouts_facts [of p cbs] by (simp add: textOnly_def)
  show ?case
  proof (cases "r' = r")
    case True
    then show ?thesis using snoc.prems len by (simp add: c setTextContent_node)
  next
    case False
    then have "(t, ClearText r) \<in> set cbs" using snoc.prems c by auto
    then have "textContent (nodes ?q ! r) = []" using snoc.prems by (intro snoc.IH)
    then show ?thesis using False snoc.prems len by (simp add: c setTextContent_node)
  qed
qed

lemma elapse_facts:
  "textOnly p (elapse dt p)"
  "clock (elapse dt p) = clock p + dt"
  "timeouts (elapse dt p) = filter (\<lambda>(t, callback). \<not> t \<le> clock p + dt) (timeouts p)"
proof -
  let ?p = "p\<lparr>clock := clock p + dt,
              timeouts := filter (\<lambda>(t, callback). \<not> t \<le> clock p + dt) (timeouts p)\<rparr>"
  let ?due = "sort_key fst (filter (\<lambda>(t, callback). t \<le> clock p + dt) (timeouts p))"
  have e: "elapse dt p = fold (\<lambda>(t, callback). runTimeout callback) ?due ?p"
    by (simp add: elapse_def Let_def)
  have t: "textOnly p ?p" by (simp add: textOnly_def treeOrder_def)
  note f = runTimeouts_facts [of ?p ?due]
  show "textOnly p (elapse dt p)" unfolding e using t f by (blast intro: textOnly_trans)
  show "clock (elapse dt p) = clock p + dt" unfolding e using f by simp
  show "timeouts (elapse dt p) = filter (\<lambda>(t, callback). \<not> t \<le> clock p + dt) (timeouts p)"
    unfolding e using f by simp
qed

lemma elapse_cleared:
  assumes "(t, ClearText r) \<in> set (timeouts p)" and "t \<le> clock p + dt" and "r < length (nodes p)"
  shows "textContent (nodes (elapse dt p) ! r) = []"
proof -
  let ?p = "p\<lparr>clock := clock p + dt,
              timeouts := filter (\<lambda>(t, callback). \<not> t \<le> clock p + dt) (timeouts p)\<rparr>"
  let ?due = "sort_key fst (filter (\<lambda>(t, callback). t \<le> clock p + dt) (timeouts p))"
  have e: "elapse dt p = fold (\<lambda>(t, callback). runTimeout callback) ?due ?p"
    by (simp add: elapse_def Let_def)
  have "(t, ClearText r) \<in> set ?due" using assms by simp
  moreover have "r < length (nodes ?p)" using assms by simp
  ultimately show ?thesis unfolding e by (rule runTimeouts_cleared)
qed

lemma setTimeout_fields:
  "nodes (setTimeout cb d p) = nodes p"
  "treeOrder (setTimeout cb d p) = treeOrder p"
  "timeouts (setTimeout cb d p) = timeouts p @ [(clock p + d, cb)]"
  "clock (setTimeout cb d p) = clock p"
  by (simp_all add: setTimeout_def treeOrder_def)

lemma announce_found:
  assumes "liveRegionOf p = Some r"
  shows "announceToScreenReader m pr p = setTimeout (ClearText r) 1000 (setTextContent r m p)"
  using assms by (simp add: announceToScreenReader_def liveRegionOf_def)

lemma announce_created:
  assumes "liveRegionOf p = None"
  shows "nodes (announceToScreenReader m pr p) = nodes p @ [liveRegionElement pr m]"
    and "treeOrder (announceToScreenReader m pr p) = treeOrder p @ [length (nodes p)]"
    and "timeouts (announceToScreenReader m pr p) =
           timeouts p @ [(clock p + 1000, ClearText (length (nodes p)))]"
    and "clock (announceToScreenReader m pr p) = clock p"
  using assms
  by (simp_all add: announceToScreenReader_def liveRegionOf_def Let_def dom_ops setTimeout_def
      treeOrder_def liveRegionElement_def fun_upd_twist)

lemma announce_facts:
  assumes "wfPage p"
  shows "liveRegionOf (announceToScreenReader m pr p) = Some (regionAfter p)"
    and "regionAfter p < length (nodes (announceToScreenReader m pr p))"
    and "textContent (nodes (announceToScreenReader m pr p) ! regionAfter p) = m"
    and "timeouts (announceToScreenReader m pr p) =
           timeouts p @ [(clock p + 1000, ClearText (regionAfter p))]"
    and "clock (announceToScreenReader m pr p) = clock p"
    and "wfPage (announceToScreenReader m pr p)"
proof -
  let ?q = "announceToScreenReader m pr p"
  have "liveRegionOf ?q = Some (regionAfter p)
      \<and> regionAfter p < length (nodes ?q)
      \<and> textContent (nodes ?q ! regionAfter p) = m
      \<and> timeouts ?q = timeouts p @ [(clock p + 1000, ClearText (regionAfter p))]
      \<and> clock ?q = clock p \<and> wfPage ?q"
  proof (cases "liveRegionOf p")
    case None
    let ?n = "length (nodes p)"
    note c = announce_created [OF None, of m pr]
    have old: "i < ?n" if "i \<in> set (treeOrder p)" for i
      using assms that by (rule tree_in_store)
    have "find (\<lambda>i. attributes (nodes ?q ! i) (js ''id'') = Some (js ''screen-reader-announcements''))
            (treeOrder p) =
          find (\<lambda>i. attributes (nodes p ! i) (js ''id'') = Some (js ''screen-reader-announcements''))
            (treeOrder p)"
      by (rule find_same) (simp add: c(1) nth_append old)
    also have "\<dots> = None" using None by (simp add: liveRegionOf_def getElementById_def)
    finally have "liveRegionOf ?q = Some ?n"
      by (simp add: liveRegionOf_def getElementById_def c(2) find_append_cases c(1)
          liveRegionElement_def)
    moreover have "wfPage ?q"
      using assms old by (auto simp: wfPage_def c(1) c(2) list_all_iff less_Suc_eq)
    ultimately show ?thesis
      using None by (simp add: regionAfter_def c liveRegionElement_def)
  next
    case (Some r)
    have r: "r < length (nodes p)"
      using assms Some by (auto simp: liveRegionOf_def getElementById_def dest: find_in_set tree_in_store)
    have e: "?q = setTimeout (ClearText r) 1000 (setTextContent r m p)"
      by (rule announce_found [OF Some])
    have t: "textOnly p ?q"
      using textOnly_setTextContent [of p r m]
      by (simp add: e textOnly_def setTimeout_fields)
    then have "liveRegionOf ?q = Some r" "wfPage ?q"
      using assms Some by (simp_all add: textOnly_region textOnly_wf)
    then show ?thesis
      using Some r by (simp add: regionAfter_def e setTimeout_fields setTextContent_fields)
  qed
  then show "liveRegionOf ?q = Some (regionAfter p)"
    and "regionAfter p < length (nodes ?q)"
    and "textContent (nodes ?q ! regionAfter p) = m"
    and "timeouts ?q = timeouts p @ [(clock p + 1000, ClearText (regionAfter p))]"
    and "clock ?q = clock p" and "wfPage ?q"
    by simp_all
qed

lemma regionAfter_known: "liveRegionOf p = Some r \<Longrightarrow> regionAfter p = r"
  by (simp add: regionAfter_def)

text \<open>
  Claim C6. On a well-formed page, right after \<open>announceToScreenReader(m, pr)\<close> the text
  of the live region is \<open>m\<close>, and it is empty once 1000 ms have passed. The clear is
  not cancelled by a later call: when a second message is announced \<open>d\<close> ms after the
  first (\<open>d\<close> between 0 and 1000), the region shows the second message, and
  \<open>1000 - d\<close> ms later the clear of the first call has emptied the region, while the
  clear of the second call is still waiting.
\<close>

theorem announcement_shown_then_cleared:
  assumes "wfPage p"
  shows "regionText (announceToScreenReader m pr p) = Some m
       \<and> regionText (elapse 1000 (announceToScreenReader m pr p)) = Some []
       \<and> (\<forall>d m2 pr2. 0 < d \<and> d < 1000 \<longrightarrow>
            regionText (announceToScreenReader m2 pr2 (elapse d (announceToScreenReader m pr p)))
              = Some m2
          \<and> regionText (elapse (1000 - d)
               (announceToScreenReader m2 pr2 (elapse d (announceToScreenReader m pr p))))
              = Some []
          \<and> (clock p + d + 1000, ClearText (regionAfter p))
              \<in> set (timeouts (elapse (1000 - d)
                   (announceToScreenReader m2 pr2 (elapse d (announceToScreenReader m pr p))))))"
proof -
  let ?r = "regionAfter p"
  let ?A = "announceToScreenReader m pr p"
  note a = announce_facts [OF assms, of m pr]
  have shown: "regionText ?A = Some m"
    by (simp add: regionText_def a)
  have mine: "(clock p + 1000, ClearText ?r) \<in> set (timeouts ?A)"
    by (simp add: a)
  have cleared: "regionText (elapse 1000 ?A) = Some []"
  proof -
    have "liveRegionOf (elapse 1000 ?A) = Some ?r"
      using elapse_facts(1) [where p = ?A and dt = 1000] a by (simp add: textOnly_region)
    moreover have "textContent (nodes (elapse 1000 ?A) ! ?r) = []"
      using mine by (rule elapse_cleared) (simp_all add: a)
    ultimately show ?thesis by (simp add: regionText_def)
  qed
  have overlap:
    "regionText (announceToScreenReader m2 pr2 (elapse d ?A)) = Some m2
     \<and> regionText (elapse (1000 - d) (announceToScreenReader m2 pr2 (elapse d ?A))) = Some []
     \<and> (clock p + d + 1000, ClearText ?r)
          \<in> set (timeouts (elapse (1000 - d) (announceToScreenReader m2 pr2 (elapse d ?A))))"
    if d: "0 < d" "d < 1000" for d m2 pr2
  proof -
    let ?B = "elapse d ?A"
    let ?C = "announceToScreenReader m2 pr2 ?B"
    let ?D = "elapse (1000 - d) ?C"
    note e2 = elapse_facts [where p = ?A and dt = d]
    have wf2: "wfPage ?B" using e2(1) a(6) by (rule textOnly_wf)
    have r2: "liveRegionOf ?B = Some ?r" using e2(1) a by (simp add: textOnly_region)
    then have ra2: "regionAfter ?B = ?r" by (rule regionAfter_known)
    have pend: "(clock p + 1000, ClearText ?r) \<in> set (timeouts ?B)"
      using d mine by (simp add: e2 a(5))
    note a3 = announce_facts [OF wf2, of m2 pr2, unfolded ra2]
    have c3: "clock ?C = clock p + d" by (simp add: a3 e2 a(5))
    have t3: "(clock p + 1000, ClearText ?r) \<in> set (timeouts ?C)"
      and n3: "(clock p + d + 1000, ClearText ?r) \<in> set (timeouts ?C)"
      using pend by (simp_all add: a3 e2(2) a(5))
    note e4 = elapse_facts [where p = ?C and dt = "1000 - d"]
    have "liveRegionOf ?D = Some ?r"
      using e4(1) a3 by (simp add: textOnly_region)
    moreover have "textContent (nodes ?D ! ?r) = []"
      using t3 by (rule elapse_cleared) (use d in \<open>simp_all add: c3 a3\<close>)
    moreover have "(clock p + d + 1000, ClearText ?r) \<in> set (timeouts ?D)"
      using n3 d by (simp add: e4 c3)
    ultimately show ?thesis by (simp add: regionText_def a3)
  qed
  from shown cleared overlap show ?thesis by blast
qed

theorem announcement_shown_then_cleared_witness:
  "wfPage (pageOf [])
   \<and> regionText (announceToScreenReader (js ''test'') (Some (js ''polite'')) (pageOf [])) = Some (js ''test'')
   \<and> regionText (elapse 1000 (announceToScreenReader (js ''test'') (Some (js ''polite'')) (pageOf []))) = Some []
   \<and> regionText (elapse 600 (announceToScreenReader (js ''next'') None
        (elapse 400 (announceToScreenReader (js ''test'') (Some (js ''polite'')) (pageOf []))))) = Some []"
proof -
  note t = announcement_shown_then_cleared [OF wfPage_pageOf, of "js ''test''" "Some (js ''polite'')" "[]"]
  from t have "0 < (400::nat) \<and> (400::nat) < 1000 \<longrightarrow>
      regionText (elapse (1000 - 400) (announceToScreenReader (js ''next'') None
        (elapse 400 (announceToScreenReader (js ''test'') (Some (js ''polite'')) (pageOf []))))) = Some []"
    by blast
  then have "regionText (elapse 600 (announceToScreenReader (js ''next'') None
        (elapse 400 (announceToScreenReader (js ''test'') (Some (js ''polite'')) (pageOf []))))) = Some []"
    by simp
  then show ?thesis using t by (simp add: wfPage_pageOf)
qed

lemma regionStep_textOnly:
  assumes "wfPage q" and "liveRegionOf q = Some r"
  shows "textOnly q (regionStep ev q)"
proof (cases ev)
  case (Announce m pr)
  have "textOnly q (setTextContent r m q)" by (rule textOnly_setTextContent)
  then show ?thesis
    by (simp add: Announce announce_found [OF assms(2)] textOnly_def setTimeout_fields)
next
  case (Elapse dt)
  then show ?thesis by (simp add: elapse_facts(1))
qed

lemma regionRun_textOnly:
  assumes "wfPage q" and "liveRegionOf q = Some r"
  shows "textOnly q (regionRun evs q)"
  using assms
proof (induction evs arbitrary: q)
  case Nil
  show ?case by (simp add: textOnly_refl)
next
  case (Cons ev evs)
  have s: "textOnly q (regionStep ev q)" using Cons.prems by (rule regionStep_textOnly)
  then have "wfPage (regionStep ev q)" "liveRegionOf (regionStep ev q) = Some r"
    using Cons.prems by (simp_all add: textOnly_wf textOnly_region)
  then have "textOnly (regionStep ev q) (regionRun evs (regionStep ev q))" by (rule Cons.IH)
  with s show ?case by (auto intro: textOnly_trans)
qed

text \<open>
  Claim C10. On a well-formed page without a live region, let a first announcement create
  the region, and let any sequence of further announcements, with any priorities, and of
  time passing follow. The live region is still the element the first call created; its
  \<open>aria-live\<close> attribute is the priority of the first call (\<open>polite\<close> if it gave
  none), its \<open>aria-atomic\<close> attribute is \<open>true\<close>, its style is the hiding style, and
  the element differs from what the first call left at most in its text.
\<close>

theorem live_region_priority_fixed_by_first_call:
  assumes "wfPage p" and "liveRegionOf p = None"
  shows "liveRegionOf (regionRun evs (announceToScreenReader m pr p)) = Some (length (nodes p))
       \<and> getAttribute (nodes (regionRun evs (announceToScreenReader m pr p)) ! length (nodes p))
            (js ''aria-live'') = Some (case pr of None \<Rightarrow> js ''polite'' | Some x \<Rightarrow> x)
       \<and> getAttribute (nodes (regionRun evs (announceToScreenReader m pr p)) ! length (nodes p))
            (js ''aria-atomic'') = Some (js ''true'')
       \<and> cssText (nodes (regionRun evs (announceToScreenReader m pr p)) ! length (nodes p))
            = liveRegionStyle
       \<and> nodes (regionRun evs (announceToScreenReader m pr p)) ! length (nodes p) =
           (nodes (announceToScreenReader m pr p) ! length (nodes p))
             \<lparr>textContent :=
                textContent (nodes (regionRun evs (announceToScreenReader m pr p)) ! length (nodes p))\<rparr>"
proof -
  let ?n = "length (nodes p)"
  let ?a = "announceToScreenReader m pr p"
  let ?q = "regionRun evs ?a"
  have ra: "regionAfter p = ?n" using assms(2) by (simp add: regionAfter_def)
  note a = announce_facts [OF assms(1), of m pr, unfolded ra]
  note c = announce_created [OF assms(2), of m pr]
  have t: "textOnly ?a ?q" using a(6) a(1) by (rule regionRun_textOnly)
  have n: "?n < length (nodes ?a)" by (rule a(2))
  have el: "nodes ?a ! ?n = liveRegionElement pr m" by (simp add: c(1))
  have r: "liveRegionOf ?q = Some ?n" using t a(6) a(1) by (simp add: textOnly_region)
  have same: "nodes ?q ! ?n = (nodes ?a ! ?n)\<lparr>textContent := textContent (nodes ?q ! ?n)\<rparr>"
    using t n by (simp add: textOnly_def)
  have at: "attributes (nodes ?q ! ?n) = attributes (liveRegionElement pr m)"
    and cs: "cssText (nodes ?q ! ?n) = cssText (liveRegionElement pr m)"
    using textOnly_attributes [OF t n] by (simp_all add: el)
  show ?thesis
    using r same
    by (simp add: getAttribute_def at cs liveRegionElement_def)
qed

theorem live_region_priority_fixed_by_first_call_witness:
  "wfPage (pageOf []) \<and> liveRegionOf (pageOf []) = None
   \<and> getAttribute (nodes (regionRun [Announce (js ''again'') (Some (js ''assertive''))]
          (announceToScreenReader (js ''first'') (Some (js ''polite'')) (pageOf []))) ! 3)
        (js ''aria-live'') = Some (js ''polite'')"
proof -
  have n: "liveRegionOf (pageOf []) = None"
    by (simp add: liveRegionOf_def getElementById_def pageOf_def treeOrder_def plainElement_def)
  have l: "length (nodes (pageOf [])) = 3" by (simp add: pageOf_def)
  show ?thesis
    using live_region_priority_fixed_by_first_call [OF wfPage_pageOf n,
        of "[Announce (js ''again'') (Some (js ''assertive''))]" "js ''first''" "Some (js ''polite'')"]
    by (simp add: wfPage_pageOf n l)
qed

end
